theory Spec2Isabelle
  imports Main "HOL-Library.Multiset"
begin

section \<open>JavaScript strings and values\<close>

text \<open>
  A JavaScript string is a sequence of UTF-16 code units; a code unit is modelled by its
  number.  The literals of the source are ASCII and are written as HOL strings,
  converted by \<open>str\<close>.
\<close>

type_synonym jsstring = "nat list"

definition cu :: "char \<Rightarrow> nat" where
  "cu c = of_char c"

definition str :: "string \<Rightarrow> jsstring" where
  "str = map cu"

lemma cu_simps:
  \<open>cu CHR '' '' = 32\<close>
  \<open>cu CHR ''"'' = 34\<close>
  \<open>cu CHR ''('' = 40\<close>
  \<open>cu CHR '')'' = 41\<close>
  \<open>cu CHR '','' = 44\<close>
  \<open>cu CHR ''-'' = 45\<close>
  \<open>cu CHR ''.'' = 46\<close>
  \<open>cu CHR ''/'' = 47\<close>
  \<open>cu CHR '':'' = 58\<close>
  \<open>cu CHR ''_'' = 95\<close>
  \<open>cu CHR ''0'' = 48\<close>
  \<open>cu CHR ''1'' = 49\<close>
  \<open>cu CHR ''2'' = 50\<close>
  \<open>cu CHR ''3'' = 51\<close>
  \<open>cu CHR ''4'' = 52\<close>
  \<open>cu CHR ''5'' = 53\<close>
  \<open>cu CHR ''6'' = 54\<close>
  \<open>cu CHR ''7'' = 55\<close>
  \<open>cu CHR ''8'' = 56\<close>
  \<open>cu CHR ''9'' = 57\<close>
  \<open>cu CHR ''A'' = 65\<close>
  \<open>cu CHR ''B'' = 66\<close>
  \<open>cu CHR ''C'' = 67\<close>
  \<open>cu CHR ''D'' = 68\<close>
  \<open>cu CHR ''E'' = 69\<close>
  \<open>cu CHR ''F'' = 70\<close>
  \<open>cu CHR ''G'' = 71\<close>
  \<open>cu CHR ''H'' = 72\<close>
  \<open>cu CHR ''I'' = 73\<close>
  \<open>cu CHR ''J'' = 74\<close>
  \<open>cu CHR ''K'' = 75\<close>
  \<open>cu CHR ''L'' = 76\<close>
  \<open>cu CHR ''M'' = 77\<close>
  \<open>cu CHR ''N'' = 78\<close>
  \<open>cu CHR ''O'' = 79\<close>
  \<open>cu CHR ''P'' = 80\<close>
  \<open>cu CHR ''Q'' = 81\<close>
  \<open>cu CHR ''R'' = 82\<close>
  \<open>cu CHR ''S'' = 83\<close>
  \<open>cu CHR ''T'' = 84\<close>
  \<open>cu CHR ''U'' = 85\<close>
  \<open>cu CHR ''V'' = 86\<close>
  \<open>cu CHR ''W'' = 87\<close>
  \<open>cu CHR ''X'' = 88\<close>
  \<open>cu CHR ''Y'' = 89\<close>
  \<open>cu CHR ''Z'' = 90\<close>
  \<open>cu CHR ''a'' = 97\<close>
  \<open>cu CHR ''b'' = 98\<close>
  \<open>cu CHR ''c'' = 99\<close>
  \<open>cu CHR ''d'' = 100\<close>
  \<open>cu CHR ''e'' = 101\<close>
  \<open>cu CHR ''f'' = 102\<close>
  \<open>cu CHR ''g'' = 103\<close>
  \<open>cu CHR ''h'' = 104\<close>
  \<open>cu CHR ''i'' = 105\<close>
  \<open>cu CHR ''j'' = 106\<close>
  \<open>cu CHR ''k'' = 107\<close>
  \<open>cu CHR ''l'' = 108\<close>
  \<open>cu CHR ''m'' = 109\<close>
  \<open>cu CHR ''n'' = 110\<close>
  \<open>cu CHR ''o'' = 111\<close>
  \<open>cu CHR ''p'' = 112\<close>
  \<open>cu CHR ''q'' = 113\<close>
  \<open>cu CHR ''r'' = 114\<close>
  \<open>cu CHR ''s'' = 115\<close>
  \<open>cu CHR ''t'' = 116\<close>
  \<open>cu CHR ''u'' = 117\<close>
  \<open>cu CHR ''v'' = 118\<close>
  \<open>cu CHR ''w'' = 119\<close>
  \<open>cu CHR ''x'' = 120\<close>
  \<open>cu CHR ''y'' = 121\<close>
  \<open>cu CHR ''z'' = 122\<close>
  by (simp_all add: cu_def)

lemma str_simps: "str [] = []" "str (c # cs) = cu c # str cs"
  by (simp_all add: str_def)

text \<open>
  The primitive values.  A number is kept as the text that \<open>ToString\<close> gives it, such as
  \<open>8\<close>, \<open>0.5\<close>, \<open>1e+21\<close>, \<open>NaN\<close> or \<open>Infinity\<close>: the program reads no more of a
  number than this text and whether it is truthy, and the falsy numbers, \<open>0\<close>, \<open>-0\<close> and
  \<open>NaN\<close>, are those printed \<open>0\<close> and \<open>NaN\<close>.
\<close>

datatype jsval =
    JString jsstring
  | JNumber jsstring
  | JBoolean bool
  | JNull
  | JUndefined

datatype error = TypeError | InvalidInput

definition slice :: "jsstring \<Rightarrow> nat \<Rightarrow> nat \<Rightarrow> jsstring" where
  "slice s i e = take (e - i) (drop i s)"

section \<open>The pattern engine\<close>

text \<open>
  The regular expressions of the source use literals, alternation, an optional group,
  greedy repetition of a character class, the assertions \<open>\b\<close>, \<open>^\<close>, \<open>$\<close> and a
  negative lookahead.  \<open>rmatch ic r s i\<close> lists the end positions of the matches of
  \<open>r\<close> that start at position \<open>i\<close> of the input \<open>s\<close>, in the order in which a
  backtracking matcher tries them; the head of the list is the match JavaScript reports.
  \<open>ic\<close> is the \<open>i\<close> flag.
\<close>

datatype catom = CChar nat | CSpace | CDigit

datatype regex =
    Lit jsstring
  | Cls "catom list"
  | Seq regex regex
  | Alt regex regex
  | Opt regex
  | Star "catom list"
  | Plus "catom list"
  | WordB
  | Bol
  | Eol
  | NegLook regex

definition is_word :: "nat \<Rightarrow> bool" where
  "is_word u \<longleftrightarrow> (48 \<le> u \<and> u \<le> 57) \<or> (65 \<le> u \<and> u \<le> 90) \<or> u = 95 \<or> (97 \<le> u \<and> u \<le> 122)"

definition is_space :: "nat \<Rightarrow> bool" where
  "is_space u \<longleftrightarrow> (9 \<le> u \<and> u \<le> 13) \<or> u = 32 \<or> u = 160 \<or> u = 5760
     \<or> (8192 \<le> u \<and> u \<le> 8202) \<or> u = 8232 \<or> u = 8233 \<or> u = 8239 \<or> u = 8287
     \<or> u = 12288 \<or> u = 65279"

definition is_digit :: "nat \<Rightarrow> bool" where
  "is_digit u \<longleftrightarrow> 48 \<le> u \<and> u \<le> 57"

text \<open>
  Case folding of the \<open>i\<close> flag (without the \<open>u\<close> flag): a code unit is compared by its
  upper-case form, and a code unit outside ASCII never folds into ASCII.  Every pattern
  character of the source is ASCII, so folding the ASCII letters decides every comparison.
\<close>

definition canonicalize :: "nat \<Rightarrow> nat" where
  "canonicalize u = (if 97 \<le> u \<and> u \<le> 122 then u - 32 else u)"

definition char_eq :: "bool \<Rightarrow> nat \<Rightarrow> nat \<Rightarrow> bool" where
  "char_eq ic p u \<longleftrightarrow> (if ic then canonicalize p = canonicalize u else p = u)"

fun atom_match :: "bool \<Rightarrow> nat \<Rightarrow> catom \<Rightarrow> bool" where
  "atom_match ic u (CChar p) = char_eq ic p u"
| "atom_match ic u CSpace = is_space u"
| "atom_match ic u CDigit = is_digit u"

definition in_class :: "bool \<Rightarrow> catom list \<Rightarrow> nat \<Rightarrow> bool" where
  "in_class ic cs u = list_ex (atom_match ic u) cs"

fun lit_match :: "bool \<Rightarrow> jsstring \<Rightarrow> jsstring \<Rightarrow> bool" where
  "lit_match ic [] xs = True"
| "lit_match ic (p # ps) [] = False"
| "lit_match ic (p # ps) (x # xs) = (char_eq ic p x \<and> lit_match ic ps xs)"

definition word_at :: "jsstring \<Rightarrow> nat \<Rightarrow> bool" where
  "word_at s i \<longleftrightarrow> i < length s \<and> is_word (s ! i)"

definition boundary :: "jsstring \<Rightarrow> nat \<Rightarrow> bool" where
  "boundary s i \<longleftrightarrow> ((0 < i \<and> word_at s (i - 1)) \<noteq> word_at s i)"

definition run_length :: "bool \<Rightarrow> catom list \<Rightarrow> jsstring \<Rightarrow> nat" where
  "run_length ic cs xs = length (takeWhile (in_class ic cs) xs)"

fun rmatch :: "bool \<Rightarrow> regex \<Rightarrow> jsstring \<Rightarrow> nat \<Rightarrow> nat list" where
  "rmatch ic (Lit w) s i = (if lit_match ic w (drop i s) then [i + length w] else [])"
| "rmatch ic (Cls cs) s i = (if i < length s \<and> in_class ic cs (s ! i) then [i + 1] else [])"
| "rmatch ic (Seq r1 r2) s i = concat (map (rmatch ic r2 s) (rmatch ic r1 s i))"
| "rmatch ic (Alt r1 r2) s i = rmatch ic r1 s i @ rmatch ic r2 s i"
| "rmatch ic (Opt r) s i = rmatch ic r s i @ [i]"
| "rmatch ic (Star cs) s i = map (\<lambda>k. i + k) (rev [0 ..< Suc (run_length ic cs (drop i s))])"
| "rmatch ic (Plus cs) s i = map (\<lambda>k. i + k) (rev [1 ..< Suc (run_length ic cs (drop i s))])"
| "rmatch ic WordB s i = (if boundary s i then [i] else [])"
| "rmatch ic Bol s i = (if i = 0 then [i] else [])"
| "rmatch ic Eol s i = (if i = length s then [i] else [])"
| "rmatch ic (NegLook r) s i = (if rmatch ic r s i = [] then [i] else [])"

fun alts :: "regex list \<Rightarrow> regex" where
  "alts [] = NegLook (Lit [])"
| "alts [r] = r"
| "alts (r # rs) = Alt r (alts rs)"

definition words :: "string list \<Rightarrow> regex" where
  "words ws = alts (map (\<lambda>w. Lit (str w)) ws)"

fun seqs :: "regex list \<Rightarrow> regex" where
  "seqs [] = Lit []"
| "seqs [r] = r"
| "seqs (r # rs) = Seq r (seqs rs)"

text \<open>A regular expression object: its pattern, its flags and its mutable \<open>lastIndex\<close>.\<close>

record regexp =
  pattern :: regex
  global :: bool
  ignoreCase :: bool

text \<open>
  The first match at or after position \<open>i\<close>: its start and its end.
\<close>

definition matches_at :: "regexp \<Rightarrow> jsstring \<Rightarrow> nat \<Rightarrow> bool" where
  "matches_at re s j \<longleftrightarrow> rmatch (ignoreCase re) (pattern re) s j \<noteq> []"

definition find_match :: "regexp \<Rightarrow> jsstring \<Rightarrow> nat \<Rightarrow> (nat \<times> nat) option" where
  "find_match re s i =
     (case List.find (matches_at re s) [i ..< Suc (length s)] of
        None \<Rightarrow> None
      | Some j \<Rightarrow> Some (j, hd (rmatch (ignoreCase re) (pattern re) s j)))"

text \<open>
  \<open>RegExp.prototype.test\<close>: a regular expression with the \<open>g\<close> flag starts at its
  \<open>lastIndex\<close> and stores the end of the match there (0 after a failure); without the
  flag the search starts at 0 and \<open>lastIndex\<close> is left alone.
\<close>

definition regexp_test :: "regexp \<Rightarrow> nat \<Rightarrow> jsstring \<Rightarrow> bool \<times> nat" where
  "regexp_test re lastIdx s =
     (if global re then
        (if lastIdx > length s then (False, 0)
         else (case find_match re s lastIdx of
                 None \<Rightarrow> (False, 0)
               | Some (j, e) \<Rightarrow> (True, e)))
      else (find_match re s 0 \<noteq> None, lastIdx))"


section \<open>Pattern detection (patterns.js)\<close>

record issue =
  id' :: jsstring
  name :: jsstring
  description :: jsstring
  weight :: int
  suggestion :: jsstring

datatype matcher = Regex regexp | Detect "jsval \<Rightarrow> error + bool"

record rule = issue +
  matcher :: matcher

record indicator =
  ind_regex :: regexp
  ind_weight :: int

record analysis =
  score :: int
  aiScore :: int
  realismScore :: int
  issues :: "issue list"
  issueCount :: nat

subsection \<open>Coercion to a string\<close>

text \<open>\<open>ToString\<close>, for the primitive values.\<close>

fun to_string :: "jsval \<Rightarrow> jsstring" where
  "to_string (JString s) = s"
| "to_string (JNumber n) = n"
| "to_string (JBoolean b) = (if b then str ''true'' else str ''false'')"
| "to_string JNull = str ''null''"
| "to_string JUndefined = str ''undefined''"

subsection \<open>All matches of a global regular expression\<close>

lemma lit_match_length: "lit_match ic w xs \<Longrightarrow> length w \<le> length xs"
  by (induction ic w xs rule: lit_match.induct) auto

lemma rmatch_bounds:
  "e \<in> set (rmatch ic r s i) \<Longrightarrow> i \<le> e \<and> (i \<le> length s \<longrightarrow> e \<le> length s)"
proof (induction r arbitrary: i e)
  case (Lit w)
  then show ?case
    using lit_match_length [of ic w "drop i s"] by (auto split: if_splits)
next
  case (Seq r1 r2)
  from Seq.prems obtain k where k: "k \<in> set (rmatch ic r1 s i)" "e \<in> set (rmatch ic r2 s k)"
    by auto
  from Seq.IH(1) [OF k(1)] Seq.IH(2) [OF k(2)] show ?case by auto
next
  case (Star cs)
  have "run_length ic cs (drop i s) \<le> length (drop i s)"
    unfolding run_length_def by (rule length_takeWhile_le)
  with Star show ?case by auto
next
  case (Plus cs)
  have "run_length ic cs (drop i s) \<le> length (drop i s)"
    unfolding run_length_def by (rule length_takeWhile_le)
  with Plus show ?case by auto
qed (auto split: if_splits)

lemma find_match_bounds:
  assumes "find_match re s i = Some (j, e)"
  shows "i \<le> j \<and> j \<le> e \<and> j \<le> length s \<and> e \<le> length s
    \<and> rmatch (ignoreCase re) (pattern re) s j \<noteq> []
    \<and> e = hd (rmatch (ignoreCase re) (pattern re) s j)"
proof -
  from assms have f: "List.find (matches_at re s) [i ..< Suc (length s)] = Some j"
    and e: "e = hd (rmatch (ignoreCase re) (pattern re) s j)"
    by (auto simp: find_match_def simp del: upt_Suc split: option.splits)
  from f have j: "j \<in> set [i ..< Suc (length s)]" "rmatch (ignoreCase re) (pattern re) s j \<noteq> []"
    by (auto simp: find_Some_iff matches_at_def simp del: upt_Suc)
  then have "e \<in> set (rmatch (ignoreCase re) (pattern re) s j)"
    using e by simp
  from rmatch_bounds [OF this] j e show ?thesis by auto
qed

text \<open>
  The loop of \<open>String.prototype.match\<close> and \<open>String.prototype.replace\<close> for a
  regular expression with the \<open>g\<close> flag: \<open>lastIndex\<close> starts at 0, every match is
  recorded, and an empty match advances \<open>lastIndex\<close> by one.
\<close>

function exec_all :: "regexp \<Rightarrow> jsstring \<Rightarrow> nat \<Rightarrow> (nat \<times> nat) list" where
  "exec_all re s pos =
     (if pos > length s then []
      else (case find_match re s pos of
              None \<Rightarrow> []
            | Some (j, e) \<Rightarrow> (j, e) # exec_all re s (if e = j then e + 1 else e)))"
  by pat_completeness auto
termination
proof (relation "measure (\<lambda>(re, s, pos). Suc (length s) - pos)", goal_cases)
  case 1
  show ?case by simp
next
  case (2 re s pos x2 j e)
  then have "find_match re s pos = Some (j, e)" by simp
  from find_match_bounds [OF this] 2(1) show ?case by auto
qed

declare exec_all.simps [simp del]

text \<open>\<open>s.match(re)\<close> for a global \<open>re\<close>: the matched substrings, or \<open>null\<close>.\<close>

definition string_match :: "regexp \<Rightarrow> jsstring \<Rightarrow> jsstring list option" where
  "string_match re s =
     (case exec_all re s 0 of
        [] \<Rightarrow> None
      | ms \<Rightarrow> Some (map (\<lambda>(j, e). slice s j e) ms))"


subsection \<open>The detection rules\<close>

definition lit :: "string \<Rightarrow> regex" where
  "lit w = Lit (str w)"

definition rx :: "regex \<Rightarrow> regexp" where
  "rx r = \<lparr>pattern = r, global = False, ignoreCase = False\<rparr>"

definition rx_i :: "regex \<Rightarrow> regexp" where
  "rx_i r = \<lparr>pattern = r, global = False, ignoreCase = True\<rparr>"

definition rx_g :: "regex \<Rightarrow> regexp" where
  "rx_g r = \<lparr>pattern = r, global = True, ignoreCase = False\<rparr>"

definition rx_gi :: "regex \<Rightarrow> regexp" where
  "rx_gi r = \<lparr>pattern = r, global = True, ignoreCase = True\<rparr>"

definition style_words :: regexp where
  "style_words = rx_gi (seqs [WordB,
     words [''style'', ''aesthetic'', ''vibe'', ''mood'', ''tone'', ''look'', ''feel''], WordB])"

definition imperfectionWords :: regexp where
  "imperfectionWords = rx_i (seqs [WordB,
     words [''worn'', ''scratched'', ''faded'', ''dusty'', ''dirty'', ''messy'', ''wrinkled'',
       ''weathered'', ''aged'', ''vintage'', ''grain'', ''noise'', ''blur'', ''soft focus'',
       ''imperfect''], WordB])"

definition cameraWords :: regexp where
  "cameraWords = rx_i (seqs [WordB,
     alts [lit ''shot on'', lit ''filmed'', lit ''captured'', lit ''35mm'', lit ''50mm'',
       lit ''85mm'', Seq (lit ''f/'') (Cls [CDigit]), lit ''aperture'', lit ''leica'',
       lit ''canon'', lit ''nikon'', lit ''hasselblad'', lit ''kodak'', lit ''fuji'',
       lit ''portra'', lit ''ektar'', lit ''tri-x''], WordB])"

text \<open>
  The three predicate rules.  \<open>prompt.match\<close> exists on strings only: on another
  primitive value the call raises a \<open>TypeError\<close>.  \<open>test\<close> coerces its argument.
\<close>

definition detect_style_stacking :: "jsval \<Rightarrow> error + bool" where
  "detect_style_stacking prompt =
     (case prompt of
        JString s \<Rightarrow>
          (let styleWords = (case string_match style_words s of None \<Rightarrow> [] | Some ms \<Rightarrow> ms)
           in Inr (length styleWords > 2))
      | _ \<Rightarrow> Inl TypeError)"

definition detect_missing_imperfection :: "jsval \<Rightarrow> error + bool" where
  "detect_missing_imperfection prompt =
     Inr (\<not> fst (regexp_test imperfectionWords 0 (to_string prompt)))"

definition detect_missing_camera :: "jsval \<Rightarrow> error + bool" where
  "detect_missing_camera prompt =
     Inr (\<not> fst (regexp_test cameraWords 0 (to_string prompt)))"

definition AI_PRONE_PATTERNS :: "rule list" where
  \<open>AI_PRONE_PATTERNS = [
    \<lparr>id' = str ''generic-subject'',
     name = str ''Generic subject'',
     description = str ''Unspecific subject without distinguishing details'',
     weight = 4,
     suggestion = str ''Add specific details: age, expression, clothing, action, distinguishing features'',
     matcher = Regex (rx_i (seqs [Bol, Opt (words [''a '', ''an '']),
       words [''woman'', ''man'', ''person'', ''girl'', ''boy'', ''child'', ''people''], WordB,
       NegLook (Seq (lit '' '') (words [''with'', ''wearing'', ''holding'', ''in their'', ''who'']))]))\<rparr>,
    \<lparr>id' = str ''generic-location'',
     name = str ''Generic location'',
     description = str ''Vague location without atmosphere or specifics'',
     weight = 3,
     suggestion = str ''Add atmosphere: time of day, weather, condition (worn, modern, cluttered), specific details'',
     matcher = Regex (rx_i (seqs [WordB, Opt (words [''in a '', ''at a '', ''at the '']),
       words [''coffee shop'', ''restaurant'', ''office'', ''room'', ''street'', ''park'', ''beach'',
         ''forest'', ''city''], WordB,
       NegLook (Seq (lit '' '') (words [''with'', ''where'', ''that'', ''filled'']))]))\<rparr>,
    \<lparr>id' = str ''beautiful-modifier'',
     name = str ''Overused beauty modifiers'',
     description = str ''"Beautiful", "stunning", "gorgeous" lead to over-processed looks'',
     weight = 5,
     suggestion = str ''Remove or replace with specific qualities: weathered, sun-dappled, candid, lived-in'',
     matcher = Regex (rx_gi (seqs [WordB,
       words [''beautiful'', ''stunning'', ''gorgeous'', ''amazing'', ''incredible'',
         ''breathtaking'', ''perfect''], WordB]))\<rparr>,
    \<lparr>id' = str ''hyper-realistic'',
     name = str ''Hyper-realistic trap'',
     description = str ''"Hyper-realistic" often produces the opposite effect'',
     weight = 4,
     suggestion = str ''Use specific camera/film references instead: "shot on Kodak Portra 400", "Leica M6"'',
     matcher = Regex (rx_gi (seqs [WordB,
       alts [seqs [lit ''hyper'', Opt (Cls [CChar 45, CChar 32]), lit ''realistic''],
             seqs [lit ''ultra'', Opt (Cls [CChar 45, CChar 32]), lit ''realistic''],
             seqs [lit ''photo'', Opt (Cls [CChar 45, CChar 32]), lit ''realistic'']], WordB]))\<rparr>,
    \<lparr>id' = str ''8k-4k'',
     name = str ''8K/4K resolution spam'',
     description = str ''Resolution tags rarely help and can trigger over-sharpening'',
     weight = 3,
     suggestion = str ''Remove. Use film grain, lens characteristics instead for quality'',
     matcher = Regex (rx_gi (seqs [WordB,
       words [''8k'', ''4k'', ''hd'', ''uhd'', ''high resolution'', ''highly detailed''], WordB]))\<rparr>,
    \<lparr>id' = str ''trending-artstation'',
     name = str ''Trending/ArtStation clich'' @ [233] @ str ''s'',
     description = str ''These tags pull toward stylized digital art, not realism'',
     weight = 4,
     suggestion = str ''Remove for realistic photos. Use photography-specific references instead'',
     matcher = Regex (rx_gi (seqs [WordB,
       words [''trending on artstation'', ''artstation'', ''deviantart'', ''cgsociety'',
         ''unreal engine'', ''octane render''], WordB]))\<rparr>,
    \<lparr>id' = str ''cinematic-lighting'',
     name = str ''Generic lighting terms'',
     description = str ''"Cinematic lighting" is vague and overused'',
     weight = 3,
     suggestion = str ''Be specific: "golden hour side light", "harsh midday sun", "overcast soft light", "single bare bulb"'',
     matcher = Regex (rx_gi (seqs [WordB,
       words [''cinematic lighting'', ''dramatic lighting'', ''professional lighting'',
         ''studio lighting''], WordB]))\<rparr>,
    \<lparr>id' = str ''portrait-generic'',
     name = str ''Generic portrait terms'',
     description = str ''Plain portrait terms lack character'',
     weight = 3,
     suggestion = str ''Add context: "candid portrait", "environmental portrait", "passport-style photo", "caught mid-laugh"'',
     matcher = Regex (rx_gi (seqs [WordB,
       words [''portrait of'', ''headshot of'', ''photo of''], WordB]))\<rparr>,
    \<lparr>id' = str ''style-stacking'',
     name = str ''Style keyword stacking'',
     description = str ''Too many style keywords fight each other'',
     weight = 3,
     suggestion = str ''Pick one clear style direction instead of stacking multiple'',
     matcher = Detect detect_style_stacking\<rparr>,
    \<lparr>id' = str ''missing-imperfection'',
     name = str ''No imperfections'',
     description = str ''Perfectly clean prompts yield AI-smooth results'',
     weight = 4,
     suggestion = str ''Add imperfections: film grain, slight blur, worn surfaces, natural mess'',
     matcher = Detect detect_missing_imperfection\<rparr>,
    \<lparr>id' = str ''missing-camera'',
     name = str ''No camera/lens reference'',
     description = str ''Missing photography specs leads to generic rendering'',
     weight = 3,
     suggestion = str ''Add camera specs: "shot on 35mm f/1.8", "Kodak Portra 400", "vintage Polaroid"'',
     matcher = Detect detect_missing_camera\<rparr>,
    \<lparr>id' = str ''symmetry-trap'',
     name = str ''Symmetry/centered composition'',
     description = str ''Centered, symmetrical compositions feel artificial'',
     weight = 2,
     suggestion = str ''Use off-center composition, rule of thirds, candid angles'',
     matcher = Regex (rx_gi (seqs [WordB,
       words [''centered'', ''symmetrical'', ''perfectly balanced'', ''in the middle'',
         ''facing camera directly''], WordB]))\<rparr>,
    \<lparr>id' = str ''direct-gaze'',
     name = str ''Direct camera gaze'',
     description = str ''Subject staring at camera often looks posed/artificial'',
     weight = 2,
     suggestion = str ''Try: "looking away", "caught unaware", "profile view", "looking down at hands"'',
     matcher = Regex (rx_gi (seqs [WordB,
       words [''looking at camera'', ''staring at camera'', ''eye contact'', ''facing forward'',
         ''looking directly''], WordB]))\<rparr>
  ]\<close>

definition REALISM_INDICATORS :: "indicator list" where
  "REALISM_INDICATORS = [
    \<lparr>ind_regex = rx_i (seqs [WordB,
       words [''candid'', ''unposed'', ''caught'', ''moment'', ''spontaneous''], WordB]), ind_weight = 2\<rparr>,
    \<lparr>ind_regex = rx_i (seqs [WordB,
       alts [lit ''35mm'', lit ''50mm'', lit ''85mm'',
             seqs [lit ''f/'', Cls [CDigit], lit ''.'', Cls [CDigit]]], WordB]), ind_weight = 3\<rparr>,
    \<lparr>ind_regex = rx_i (seqs [WordB,
       words [''kodak'', ''fuji'', ''portra'', ''ektar'', ''tri-x'', ''ilford''], WordB]), ind_weight = 3\<rparr>,
    \<lparr>ind_regex = rx_i (seqs [WordB,
       words [''grain'', ''noise'', ''soft focus'', ''slight blur'', ''motion blur''], WordB]), ind_weight = 2\<rparr>,
    \<lparr>ind_regex = rx_i (seqs [WordB,
       words [''worn'', ''weathered'', ''aged'', ''vintage'', ''faded'', ''dusty''], WordB]), ind_weight = 2\<rparr>,
    \<lparr>ind_regex = rx_i (seqs [WordB,
       words [''golden hour'', ''overcast'', ''harsh light'', ''mixed lighting''], WordB]), ind_weight = 2\<rparr>,
    \<lparr>ind_regex = rx_i (seqs [WordB,
       words [''wrinkles'', ''pores'', ''freckles'', ''asymmetric'', ''imperfect''], WordB]), ind_weight = 2\<rparr>,
    \<lparr>ind_regex = rx_i (seqs [WordB,
       words [''leica'', ''hasselblad'', ''contax'', ''pentax'', ''mamiya''], WordB]), ind_weight = 2\<rparr>,
    \<lparr>ind_regex = rx_i (seqs [WordB,
       words [''documentary'', ''street photography'', ''photojournalism''], WordB]), ind_weight = 2\<rparr>
  ]"

subsection \<open>analyzePrompt\<close>

text \<open>
  The regular expressions of the rule table are objects that live as long as the module:
  the \<open>lastIndex\<close> of each is part of the program state, kept here under the
  identifier of its rule.
\<close>

type_synonym regex_state = "jsstring \<Rightarrow> nat"

definition run_matcher :: "rule \<Rightarrow> jsval \<Rightarrow> regex_state \<Rightarrow> (error + bool) \<times> regex_state" where
  "run_matcher p prompt li =
     (case matcher p of
        Detect detect \<Rightarrow> (detect prompt, li)
      | Regex re \<Rightarrow>
          (let (m, k) = regexp_test re (li (id' p)) (to_string prompt)
           in (Inr m, li (id' p := k))))"

definition issue_of :: "rule \<Rightarrow> issue" where
  "issue_of p = \<lparr>id' = id' p, name = name p, description = description p,
     weight = weight p, suggestion = suggestion p\<rparr>"

fun check_patterns ::
  "rule list \<Rightarrow> jsval \<Rightarrow> regex_state \<Rightarrow> issue list \<Rightarrow> int
     \<Rightarrow> (error + issue list \<times> int) \<times> regex_state" where
  "check_patterns [] prompt li iss ai = (Inr (iss, ai), li)"
| "check_patterns (p # ps) prompt li iss ai =
     (case run_matcher p prompt li of
        (Inl err, li') \<Rightarrow> (Inl err, li')
      | (Inr m, li') \<Rightarrow>
          (if m then check_patterns ps prompt li' (iss @ [issue_of p]) (ai + weight p)
           else check_patterns ps prompt li' iss ai))"

fun check_indicators :: "indicator list \<Rightarrow> jsstring \<Rightarrow> int \<Rightarrow> int" where
  "check_indicators [] s re = re"
| "check_indicators (ind # inds) s re =
     (if fst (regexp_test (ind_regex ind) 0 s)
      then check_indicators inds s (re + ind_weight ind)
      else check_indicators inds s re)"

text \<open>
  The scores are sums of integer weights, so \<open>Math.round(rawScore * 5)\<close> is
  \<open>rawScore * 5\<close>.
\<close>

definition analyzePrompt :: "jsval \<Rightarrow> regex_state \<Rightarrow> (error + analysis) \<times> regex_state" where
  "analyzePrompt prompt li =
     (case check_patterns AI_PRONE_PATTERNS prompt li [] 0 of
        (Inl err, li') \<Rightarrow> (Inl err, li')
      | (Inr (iss, ai), li') \<Rightarrow>
          (let re = check_indicators REALISM_INDICATORS (to_string prompt) 0;
               rawScore = max 0 (ai - re);
               normalizedScore = min 100 (rawScore * 5)
           in (Inr \<lparr>score = normalizedScore, aiScore = ai, realismScore = re,
                     issues = iss, issueCount = length iss\<rparr>, li')))"

section \<open>The modifier vocabulary (modifiers.js)\<close>

text \<open>
  Every array of the vocabulary is a mutable object shared by all callers: the arrays are
  kept in a store, addressed by the name of the table and of its category.
\<close>

datatype table =
    CAMERAS_film
  | CAMERAS_professional
  | CAMERAS_modern
  | LENSES
  | LIGHTING_natural
  | LIGHTING_artificial
  | LIGHTING_moody
  | IMPERFECTIONS_film
  | IMPERFECTIONS_focus
  | IMPERFECTIONS_physical
  | IMPERFECTIONS_surface
  | HUMAN_DETAILS
  | COMPOSITION_natural
  | COMPOSITION_angles
  | COMPOSITION_distance
  | ENVIRONMENT_clutter
  | ENVIRONMENT_atmosphere
  | ENVIRONMENT_time
  | STYLES

type_synonym vocabulary = "table \<Rightarrow> jsstring list"

text \<open>The tables as the module defines them.\<close>

fun vocab0 :: vocabulary where
  "vocab0 CAMERAS_film =
    [str ''shot on 35mm film'',
     str ''shot on Kodak Portra 400'',
     str ''shot on Kodak Ektar 100'',
     str ''shot on Fuji Pro 400H'',
     str ''shot on Ilford HP5'',
     str ''shot on Kodak Tri-X 400'',
     str ''shot on Cinestill 800T'',
     str ''vintage Polaroid'',
     str ''instant film photograph'',
     str ''disposable camera photo'']"
| "vocab0 CAMERAS_professional =
    [str ''shot on Leica M6'',
     str ''shot on Hasselblad 500C'',
     str ''shot on Contax T2'',
     str ''shot on Mamiya RB67'',
     str ''shot on Canon AE-1'',
     str ''shot on Nikon FM2'',
     str ''shot on Pentax K1000'',
     str ''medium format film'',
     str ''large format photograph'']"
| "vocab0 CAMERAS_modern =
    [str ''shot on iPhone'',
     str ''smartphone photo'',
     str ''DSLR photograph'',
     str ''mirrorless camera'',
     str ''point and shoot camera'']"
| "vocab0 LENSES =
    [str ''35mm lens'',
     str ''50mm f/1.4'',
     str ''50mm f/1.8'',
     str ''85mm portrait lens'',
     str ''24mm wide angle'',
     str ''135mm telephoto'',
     str ''f/2.8 aperture'',
     str ''f/1.4 shallow depth of field'',
     str ''wide open aperture'',
     str ''bokeh background'',
     str ''tilt-shift lens'',
     str ''vintage lens with character'']"
| "vocab0 LIGHTING_natural =
    [str ''golden hour light'',
     str ''blue hour'',
     str ''harsh midday sun'',
     str ''overcast soft light'',
     str ''window light'',
     str ''dappled sunlight through trees'',
     str ''backlit silhouette'',
     str ''side lighting'',
     str ''natural ambient light'',
     str ''cloudy day diffused light'']"
| "vocab0 LIGHTING_artificial =
    [str ''single bare bulb'',
     str ''fluorescent office lighting'',
     str ''tungsten warm light'',
     str ''neon sign glow'',
     str ''streetlight at night'',
     str ''mixed color temperature'',
     str ''practical lights in frame'',
     str ''flash photography'',
     str ''harsh camera flash'',
     str ''ring light catchlights'']"
| "vocab0 LIGHTING_moody =
    [str ''low key lighting'',
     str ''chiaroscuro'',
     str ''Rembrandt lighting'',
     str ''dramatic shadows'',
     str ''rim light'',
     str ''lens flare'',
     str ''light leak'']"
| "vocab0 IMPERFECTIONS_film =
    [str ''film grain'',
     str ''subtle noise'',
     str ''light leaks'',
     str ''dust and scratches'',
     str ''slight overexposure'',
     str ''underexposed shadows'',
     str ''color shift'',
     str ''halation'',
     str ''vignette'']"
| "vocab0 IMPERFECTIONS_focus =
    [str ''slight motion blur'',
     str ''soft focus'',
     str ''out of focus background'',
     str ''shallow depth of field'',
     str ''slightly out of focus'',
     str ''focus falloff'',
     str ''subject blur from movement'']"
| "vocab0 IMPERFECTIONS_physical =
    [str ''lens distortion'',
     str ''chromatic aberration'',
     str ''barrel distortion'',
     str ''vintage lens flaws'',
     str ''soft corners'',
     str ''coma'']"
| "vocab0 IMPERFECTIONS_surface =
    [str ''worn surfaces'',
     str ''weathered'',
     str ''scratched'',
     str ''faded colors'',
     str ''dusty'',
     str ''dirty'',
     str ''water stains'',
     str ''patina'',
     str ''rust'',
     str ''peeling paint'']"
| "vocab0 HUMAN_DETAILS =
    [str ''visible pores'',
     str ''skin texture'',
     str ''natural wrinkles'',
     str ''laugh lines'',
     str ''freckles'',
     str ''moles'',
     str ''under-eye circles'',
     str ''stray hairs'',
     str ''asymmetric features'',
     str ''natural skin tone variation'',
     str ''subtle redness'',
     str ''visible veins'',
     str ''chapped lips'',
     str ''sweat'',
     str ''goosebumps'']"
| "vocab0 COMPOSITION_natural =
    [str ''off-center composition'',
     str ''rule of thirds'',
     str ''negative space'',
     str ''candid framing'',
     str ''environmental portrait'',
     str ''unposed'',
     str ''caught in the moment'',
     str ''documentary style'',
     str ''street photography'']"
| "vocab0 COMPOSITION_angles =
    [str ''eye level'',
     str ''slightly below eye level'',
     str ''three-quarter view'',
     str ''profile view'',
     str ''over the shoulder'',
     str ''from behind'',
     str ''birds eye view'',
     str ''worms eye view'']"
| "vocab0 COMPOSITION_distance =
    [str ''close-up'',
     str ''medium shot'',
     str ''full body'',
     str ''wide establishing shot'',
     str ''intimate distance'',
     str ''personal space'']"
| "vocab0 ENVIRONMENT_clutter =
    [str ''cluttered background'',
     str ''messy desk'',
     str ''lived-in space'',
     str ''papers scattered'',
     str ''coffee cups'',
     str ''personal belongings visible'',
     str ''everyday objects'',
     str ''natural mess'']"
| "vocab0 ENVIRONMENT_atmosphere =
    [str ''hazy atmosphere'',
     str ''dusty air'',
     str ''steam'',
     str ''smoke'',
     str ''fog'',
     str ''rain'',
     str ''condensation on windows'',
     str ''breath visible in cold'']"
| "vocab0 ENVIRONMENT_time =
    [str ''early morning'',
     str ''late afternoon'',
     str ''dusk'',
     str ''middle of the night'',
     str ''rush hour'',
     str ''quiet Sunday morning'']"
| "vocab0 STYLES =
    [str ''documentary photography'',
     str ''street photography'',
     str ''photojournalism'',
     str ''candid photography'',
     str ''snapshot aesthetic'',
     str ''vernacular photography'',
     str ''found footage look'',
     str ''surveillance camera'',
     str ''paparazzi shot'',
     str ''family album photo'',
     str ''yearbook photo'',
     str ''passport photo'',
     str ''ID photo'',
     str ''amateur photography'']"

declare vocab0.simps [simp del]

text \<open>
  The program state: the \<open>lastIndex\<close> of the rule table's regular expressions, the
  vocabulary arrays, and the source of randomness.  \<open>Math.random\<close> is an oracle: a
  stream of numbers, of which every random choice of the program consumes the next one.
\<close>

record world =
  lastIndex :: regex_state
  vocab :: vocabulary
  random :: "nat \<Rightarrow> nat"

definition draw :: "world \<Rightarrow> nat \<times> world" where
  "draw w = (random w 0, w\<lparr>random := (\<lambda>n. random w (Suc n))\<rparr>)"

text \<open>\<open>Math.floor(Math.random() * n)\<close>: an index below \<open>n\<close>, chosen by the oracle.\<close>

definition random_index :: "nat \<Rightarrow> world \<Rightarrow> nat \<times> world" where
  "random_index n w = (case draw w of (r, w') \<Rightarrow> (r mod n, w'))"

text \<open>
  \<open>items.sort(() => 0.5 - Math.random())\<close> sorts the array in place with a comparison
  that answers at random.  The order that results is implementation-defined; it is some
  permutation of the items.  The oracle picks it: \<open>permute k xs\<close> is the permutation of
  \<open>xs\<close> with code \<open>k\<close> (the first item is \<open>xs ! (k mod length xs)\<close>, the rest is
  chosen from what remains by \<open>k div length xs\<close>), and every permutation has a code.
\<close>

function permute :: "nat \<Rightarrow> 'a list \<Rightarrow> 'a list" where
  "permute k [] = []"
| "permute k (x # xs) =
     (let i = k mod length (x # xs)
      in (x # xs) ! i # permute (k div length (x # xs)) (take i (x # xs) @ drop (Suc i) (x # xs)))"
  by pat_completeness auto
termination
  by (relation "measure (\<lambda>(k, xs). length xs)") (auto simp: min_def)

datatype category = Arr table | Obj "table list" | Other

text \<open>
  \<open>getRandomModifiers(category, count)\<close>.  An array is sorted as it is, in place; the
  values of an object are flattened into a fresh array first.
\<close>

definition getRandomModifiers :: "category \<Rightarrow> nat \<Rightarrow> world \<Rightarrow> jsstring list \<times> world" where
  "getRandomModifiers cat n w =
     (case cat of
        Arr t \<Rightarrow>
          (case draw w of (k, w') \<Rightarrow>
             (let shuffled = permute k (vocab w' t)
              in (take n shuffled, w'\<lparr>vocab := (vocab w')(t := shuffled)\<rparr>)))
      | Obj ts \<Rightarrow>
          (case draw w of (k, w') \<Rightarrow>
             (let shuffled = permute k (concat (map (vocab w') ts))
              in (take n shuffled, w')))
      | Other \<Rightarrow> ([], w))"

section \<open>Transformation (transformer.js)\<close>

subsection \<open>Replacement\<close>

text \<open>
  \<open>s.replace(re, f)\<close> for a global \<open>re\<close>: all matches are found first, then the text
  between them is copied and each match is replaced by what \<open>f\<close> returns for it.  The
  callback may use the program state.
\<close>

fun build_replacement ::
  "jsstring \<Rightarrow> (jsstring \<Rightarrow> 'st \<Rightarrow> jsstring \<times> 'st) \<Rightarrow> (nat \<times> nat) list \<Rightarrow> nat \<Rightarrow> jsstring \<Rightarrow> 'st
     \<Rightarrow> jsstring \<times> 'st" where
  "build_replacement s f [] nextPos acc st = (acc @ drop nextPos s, st)"
| "build_replacement s f ((j, e) # ms) nextPos acc st =
     (case f (slice s j e) st of
        (y, st') \<Rightarrow> build_replacement s f ms e (acc @ slice s nextPos j @ y) st')"

definition string_replace ::
  "regexp \<Rightarrow> (jsstring \<Rightarrow> 'st \<Rightarrow> jsstring \<times> 'st) \<Rightarrow> jsstring \<Rightarrow> 'st \<Rightarrow> jsstring \<times> 'st" where
  "string_replace re f s st = build_replacement s f (exec_all re s 0) 0 [] st"

definition constantly :: "jsstring \<Rightarrow> jsstring \<Rightarrow> unit \<Rightarrow> jsstring \<times> unit" where
  "constantly y m u = (y, u)"

definition replace_str :: "regexp \<Rightarrow> jsstring \<Rightarrow> jsstring \<Rightarrow> jsstring" where
  "replace_str re y s = fst (string_replace re (constantly y) s ())"

subsection \<open>The steps of the transformation\<close>

definition human_words :: regexp where
  "human_words = rx_i (seqs [WordB,
     words [''woman'', ''man'', ''person'', ''girl'', ''boy'', ''child'', ''people'', ''portrait'',
       ''face'', ''model'', ''figure''], WordB])"

definition hasHumanSubject :: "jsstring \<Rightarrow> bool" where
  "hasHumanSubject prompt = fst (regexp_test human_words 0 prompt)"

definition strip_tail :: "regex list" where
  "strip_tail = [WordB, Opt (lit '',''), Star [CSpace]]"

definition strip_resolution :: regexp where
  "strip_resolution = rx_gi (seqs ([WordB,
     words [''8k'', ''4k'', ''hd'', ''uhd'', ''high resolution'', ''highly detailed'']] @ strip_tail))"

definition strip_platform :: regexp where
  "strip_platform = rx_gi (seqs ([WordB,
     words [''trending on artstation'', ''artstation'', ''deviantart'', ''cgsociety'',
       ''unreal engine'', ''octane render'']] @ strip_tail))"

definition strip_realistic :: regexp where
  "strip_realistic = rx_gi (seqs ([WordB,
     alts [seqs [lit ''hyper'', Opt (Cls [CChar 45, CChar 32]), lit ''realistic''],
           seqs [lit ''ultra'', Opt (Cls [CChar 45, CChar 32]), lit ''realistic''],
           seqs [lit ''photo'', Opt (Cls [CChar 45, CChar 32]), lit ''realistic'']]] @ strip_tail))"

definition strip_beauty :: regexp where
  "strip_beauty = rx_gi (seqs ([WordB,
     words [''beautiful'', ''stunning'', ''gorgeous'', ''amazing'', ''incredible'',
       ''breathtaking'', ''perfect'']] @ strip_tail))"

definition strip_lighting :: regexp where
  "strip_lighting = rx_gi (seqs ([WordB,
     words [''cinematic lighting'', ''dramatic lighting'', ''professional lighting'',
       ''studio lighting'']] @ strip_tail))"

definition double_comma :: regexp where
  "double_comma = rx_g (seqs [lit '','', Star [CSpace], lit '',''])"

definition spaces :: regexp where
  "spaces = rx_g (Plus [CSpace])"

definition outer_separators :: regexp where
  "outer_separators = rx_g (Alt (Seq Bol (Plus [CChar 44, CSpace])) (Seq (Plus [CChar 44, CSpace]) Eol))"

definition cleanPrompt :: "jsstring \<Rightarrow> jsstring" where
  "cleanPrompt prompt =
     (let cleaned = prompt;
          cleaned = replace_str strip_resolution [] cleaned;
          cleaned = replace_str strip_platform [] cleaned;
          cleaned = replace_str strip_realistic [] cleaned;
          cleaned = replace_str strip_beauty [] cleaned;
          cleaned = replace_str strip_lighting [] cleaned;
          cleaned = replace_str double_comma (str '','') cleaned;
          cleaned = replace_str spaces (str '' '') cleaned;
          cleaned = replace_str outer_separators [] cleaned
      in cleaned)"

definition bare_woman_man :: regexp where
  "bare_woman_man = rx_gi (seqs [WordB, lit ''a '', words [''woman'', ''man''], WordB,
     NegLook (Seq (lit '' '')
       (words [''with'', ''wearing'', ''holding'', ''in'', ''who'', ''aged'', ''around'']))])"

definition bare_person :: regexp where
  "bare_person = rx_gi (seqs [WordB, lit ''a person'', WordB,
     NegLook (Seq (lit '' '') (words [''with'', ''wearing'', ''holding'', ''in'', ''who'']))])"

definition ages :: "jsstring list" where
  "ages = [str ''in her 30s'', str ''in his 40s'', str ''middle-aged'', str ''elderly'',
     str ''young adult'']"

definition details :: "jsstring list" where
  "details = [str ''with visible laugh lines'', str ''with weathered hands'',
     str ''with tired eyes'', str ''with an asymmetric smile'']"

definition types :: "jsstring list" where
  "types = [str ''a tired office worker'', str ''a weathered farmer'',
     str ''a distracted commuter'', str ''a street vendor'', str ''someone caught mid-thought'']"

text \<open>
  The callback of the first replacement gets the match and its group \<open>subject\<close>, which
  is the match without its first two characters, \<open>a\<close> and the space.
\<close>

definition enhance_woman_man :: "jsstring \<Rightarrow> world \<Rightarrow> jsstring \<times> world" where
  "enhance_woman_man m w =
     (let subject = drop 2 m in
      case random_index (length ages) w of (i, w1) \<Rightarrow>
      case random_index (length details) w1 of (j, w2) \<Rightarrow>
        (str ''a '' @ subject @ str '' '' @ ages ! i @ str '' '' @ details ! j, w2))"

definition enhance_person :: "jsstring \<Rightarrow> world \<Rightarrow> jsstring \<times> world" where
  "enhance_person m w =
     (case random_index (length types) w of (i, w1) \<Rightarrow> (types ! i, w1))"

definition enhanceSubject :: "jsstring \<Rightarrow> world \<Rightarrow> jsstring \<times> world" where
  "enhanceSubject prompt w =
     (case string_replace bare_woman_man enhance_woman_man prompt w of (enhanced, w1) \<Rightarrow>
        string_replace bare_person enhance_person enhanced w1)"

definition locationEnhancements :: "(string \<times> jsstring list) list" where
  "locationEnhancements = [
     (''coffee shop'',
      [str ''a worn wooden table at a busy coffee shop with steamed windows'',
       str ''a quiet corner of a cluttered independent coffee shop'',
       str ''a formica counter at a 24-hour diner'']),
     (''office'',
      [str ''a fluorescent-lit cubicle with papers everywhere'',
       str ''a messy home office with coffee rings on the desk'',
       str ''a sterile open-plan office with harsh lighting'']),
     (''street'',
      [str ''a rain-slicked city street at dusk'',
       str ''a sun-bleached sidewalk in midday heat'',
       str ''a busy crosswalk during rush hour'']),
     (''park'',
      [str ''a patchy grass park with worn benches'',
       str ''an overgrown corner of an urban park'',
       str ''a muddy path through a city park after rain''])]"

definition location_regex :: "string \<Rightarrow> regexp" where
  "location_regex generic = rx_gi (seqs [WordB, words [''in a'', ''at a'', ''at the''],
     lit ('' '' @ generic), WordB])"

text \<open>The loop over the location families, left at the first family that occurs.\<close>

fun enhance_locations :: "(string \<times> jsstring list) list \<Rightarrow> jsstring \<Rightarrow> world \<Rightarrow> jsstring \<times> world" where
  "enhance_locations [] enhanced w = (enhanced, w)"
| "enhance_locations ((generic, specifics) # rest) enhanced w =
     (if fst (regexp_test (location_regex generic) 0 enhanced) then
        (case random_index (length specifics) w of (i, w1) \<Rightarrow>
           (replace_str (location_regex generic) (str ''at '' @ specifics ! i) enhanced, w1))
      else enhance_locations rest enhanced w)"

definition enhanceLocation :: "jsstring \<Rightarrow> world \<Rightarrow> jsstring \<times> world" where
  "enhanceLocation prompt w = enhance_locations locationEnhancements prompt w"

text \<open>
  A field of the options that is \<open>undefined\<close> takes its default.  \<open>xs[0]\<close> of an
  empty array is \<open>undefined\<close>, and \<open>filter(Boolean)\<close> drops \<open>undefined\<close> and the
  empty string.
\<close>

definition default_to :: "jsval \<Rightarrow> jsval \<Rightarrow> jsval" where
  "default_to d v = (if v = JUndefined then d else v)"

definition first :: "jsstring list \<Rightarrow> jsstring option" where
  "first xs = (case xs of [] \<Rightarrow> None | x # _ \<Rightarrow> Some x)"

fun filter_Boolean :: "jsstring option list \<Rightarrow> jsstring list" where
  "filter_Boolean [] = []"
| "filter_Boolean (None # xs) = filter_Boolean xs"
| "filter_Boolean (Some x # xs) = (if x = [] then filter_Boolean xs else x # filter_Boolean xs)"

fun truthy :: "jsval \<Rightarrow> bool" where
  "truthy (JString s) = (s \<noteq> [])"
| "truthy (JNumber n) = (n \<noteq> str ''0'' \<and> n \<noteq> str ''NaN'')"
| "truthy (JBoolean b) = b"
| "truthy JNull = False"
| "truthy JUndefined = False"

definition buildTechnicalModifiers :: "jsval \<Rightarrow> jsval \<Rightarrow> world \<Rightarrow> jsstring list \<times> world" where
  "buildTechnicalModifiers style0 mood0 w =
     (let style = default_to (JString (str ''film'')) style0;
          mood = default_to (JString (str ''natural'')) mood0 in
      case (if style = JString (str ''film'') then
              (case getRandomModifiers (Arr CAMERAS_film) 1 w of (ms, w') \<Rightarrow> ([first ms], w'))
            else if style = JString (str ''digital'') then
              (case getRandomModifiers (Arr CAMERAS_modern) 1 w of (ms, w') \<Rightarrow> ([first ms], w'))
            else ([Some (str ''smartphone photo'')], w)) of (parts1, w1) \<Rightarrow>
      case (if style \<noteq> JString (str ''phone'') then
              (case getRandomModifiers (Arr LENSES) 1 w1 of (ms, w') \<Rightarrow> (parts1 @ [first ms], w'))
            else (parts1, w1)) of (parts2, w2) \<Rightarrow>
      case (if mood = JString (str ''moody'') then
              (case getRandomModifiers (Arr LIGHTING_moody) 1 w2 of (ms, w') \<Rightarrow> (parts2 @ [first ms], w'))
            else if mood = JString (str ''harsh'') then
              (case getRandomModifiers (Arr LIGHTING_artificial) 1 w2 of (ms, w') \<Rightarrow> (parts2 @ [first ms], w'))
            else
              (case getRandomModifiers (Arr LIGHTING_natural) 1 w2 of (ms, w') \<Rightarrow> (parts2 @ [first ms], w')))
        of (parts3, w3) \<Rightarrow> (filter_Boolean parts3, w3))"

definition buildImperfections :: "jsval \<Rightarrow> world \<Rightarrow> jsstring list \<times> world" where
  "buildImperfections intensity0 w =
     (let intensity = default_to (JString (str ''medium'')) intensity0;
          cnt = (if intensity = JString (str ''high'') then 3
                   else if intensity = JString (str ''low'') then 1 else (2::nat)) in
      case getRandomModifiers (Arr IMPERFECTIONS_film) 1 w of (ms1, w1) \<Rightarrow>
      case (if cnt \<ge> 2 then
              (case getRandomModifiers (Arr IMPERFECTIONS_focus) 1 w1 of (ms, w') \<Rightarrow> (ms1 @ ms, w'))
            else (ms1, w1)) of (parts2, w2) \<Rightarrow>
           (if cnt \<ge> 3 then
              (case getRandomModifiers (Arr IMPERFECTIONS_surface) 1 w2 of (ms, w') \<Rightarrow> (parts2 @ ms, w'))
            else (parts2, w2)))"

record options =
  style :: jsval
  mood :: jsval
  imperfectionLevel :: jsval
  preserveOriginal :: jsval

record transform_result =
  original :: jsstring
  transformed :: jsstring
  originalScore :: int
  newScore :: int
  improvement :: int
  issuesFixed :: "jsstring list"
  modifiersAdded :: "jsstring list"

fun join :: "jsstring \<Rightarrow> jsstring list \<Rightarrow> jsstring" where
  "join sep [] = []"
| "join sep [x] = x"
| "join sep (x # xs) = x @ sep @ join sep xs"

definition analyze :: "jsstring \<Rightarrow> world \<Rightarrow> (error + analysis) \<times> world" where
  "analyze prompt w =
     (case analyzePrompt (JString prompt) (lastIndex w) of (r, li) \<Rightarrow> (r, w\<lparr>lastIndex := li\<rparr>))"

definition transformPrompt :: "jsstring \<Rightarrow> options \<Rightarrow> world \<Rightarrow> (error + transform_result) \<times> world" where
  "transformPrompt prompt opts w0 =
     (let style' = default_to (JString (str ''film'')) (style opts);
          mood' = default_to (JString (str ''natural'')) (mood opts);
          imperfectionLevel' = default_to (JString (str ''medium'')) (imperfectionLevel opts);
          preserveOriginal' = default_to (JBoolean False) (preserveOriginal opts) in
      case analyze prompt w0 of
        (Inl err, w1) \<Rightarrow> (Inl err, w1)
      | (Inr analysis, w1) \<Rightarrow>
      let cleaned = (if truthy preserveOriginal' then prompt else cleanPrompt prompt);
          isHuman = hasHumanSubject prompt in
      case enhanceSubject cleaned w1 of (subj, w2) \<Rightarrow>
      case enhanceLocation subj w2 of (loc, w3) \<Rightarrow>
      case buildTechnicalModifiers style' mood' w3 of (technical, w4) \<Rightarrow>
      case buildImperfections imperfectionLevel' w4 of (imperfections, w5) \<Rightarrow>
      case getRandomModifiers (Arr COMPOSITION_natural) 1 w5 of (composition, w6) \<Rightarrow>
      case (if isHuman then getRandomModifiers (Arr HUMAN_DETAILS) 2 w6 else ([], w6))
        of (humanDetails, w7) \<Rightarrow>
      let allModifiers = filter (\<lambda>x. x \<noteq> [])
            (technical @ imperfections @ composition @ humanDetails);
          finalPrompt = join (str '', '') (loc # allModifiers) in
      case analyze finalPrompt w7 of
        (Inl err, w8) \<Rightarrow> (Inl err, w8)
      | (Inr newAnalysis, w8) \<Rightarrow>
          (Inr \<lparr>original = prompt,
                transformed = finalPrompt,
                originalScore = score analysis,
                newScore = score newAnalysis,
                improvement = score analysis - score newAnalysis,
                issuesFixed = map name (issues analysis),
                modifiersAdded = allModifiers\<rparr>, w8))"

record suggestions =
  sug_issues :: "issue list"
  sug_score :: int
  camera :: "jsstring list"
  lighting :: "jsstring list"
  sug_imperfections :: "jsstring list"
  sug_composition :: "jsstring list"
  sug_humanDetails :: "jsstring list option"

definition getSuggestions :: "jsstring \<Rightarrow> world \<Rightarrow> (error + suggestions) \<times> world" where
  "getSuggestions prompt w0 =
     (case analyze prompt w0 of
        (Inl err, w1) \<Rightarrow> (Inl err, w1)
      | (Inr analysis, w1) \<Rightarrow>
      let isHuman = hasHumanSubject prompt in
      case getRandomModifiers (Arr CAMERAS_film) 2 w1 of (cam, w2) \<Rightarrow>
      case getRandomModifiers (Arr LIGHTING_natural) 2 w2 of (lig, w3) \<Rightarrow>
      case getRandomModifiers (Arr IMPERFECTIONS_film) 2 w3 of (imp, w4) \<Rightarrow>
      case getRandomModifiers (Arr COMPOSITION_natural) 2 w4 of (cmp, w5) \<Rightarrow>
      case (if isHuman then
              (case getRandomModifiers (Arr HUMAN_DETAILS) 3 w5 of (ms, w') \<Rightarrow> (Some ms, w'))
            else (None, w5)) of (hum, w6) \<Rightarrow>
        (Inr \<lparr>sug_issues = issues analysis, sug_score = score analysis,
              camera = cam, lighting = lig, sug_imperfections = imp, sug_composition = cmp,
              sug_humanDetails = hum\<rparr>, w6))"


section \<open>Notions used by the statements\<close>

text \<open>The regular expressions of a freshly loaded module: every \<open>lastIndex\<close> is 0.\<close>

definition fresh_regexes :: regex_state where
  "fresh_regexes = (\<lambda>_. 0)"

text \<open>
  A rule matches a prompt when its pattern matches somewhere in the prompt, or when its
  predicate returns \<open>true\<close> on the prompt; an indicator matches when its pattern matches
  somewhere.  This is a property of the rule and the prompt alone.
\<close>

definition occurs :: "regexp \<Rightarrow> jsstring \<Rightarrow> bool" where
  "occurs re s = list_ex (\<lambda>j. rmatch (ignoreCase re) (pattern re) s j \<noteq> []) [0 ..< Suc (length s)]"

definition rule_matches :: "rule \<Rightarrow> jsstring \<Rightarrow> bool" where
  "rule_matches p s =
     (case matcher p of
        Regex re \<Rightarrow> occurs re s
      | Detect detect \<Rightarrow> detect (JString s) = Inr True)"

definition indicator_matches :: "indicator \<Rightarrow> jsstring \<Rightarrow> bool" where
  "indicator_matches ind s = occurs (ind_regex ind) s"

text \<open>The sums of the weights of the rules, and of the indicators, that match a prompt.\<close>

definition matched_weight :: "jsstring \<Rightarrow> int" where
  "matched_weight s = sum_list (map weight (filter (\<lambda>p. rule_matches p s) AI_PRONE_PATTERNS))"

definition realism_weight :: "jsstring \<Rightarrow> int" where
  "realism_weight s =
     sum_list (map ind_weight (filter (\<lambda>i. indicator_matches i s) REALISM_INDICATORS))"

text \<open>
  What the tests of one call return: the test of a rule when the regular expressions are
  in the state \<open>li\<close>, which for a pattern with the \<open>g\<close> flag starts at its \<open>lastIndex\<close>,
  and the test of an indicator.
\<close>

definition rule_test :: "rule \<Rightarrow> jsstring \<Rightarrow> regex_state \<Rightarrow> bool" where
  "rule_test p s li =
     (case matcher p of
        Regex re \<Rightarrow> fst (regexp_test re (li (id' p)) s)
      | Detect detect \<Rightarrow> detect (JString s) = Inr True)"

definition indicator_test :: "indicator \<Rightarrow> jsstring \<Rightarrow> bool" where
  "indicator_test ind s = fst (regexp_test (ind_regex ind) 0 s)"

fun is_string :: "jsval \<Rightarrow> bool" where
  "is_string (JString s) = True"
| "is_string v = False"

text \<open>
  A freshly loaded module with the oracle \<open>rnd\<close>, the options object \<open>{}\<close>, and an
  options object with a mood and an imperfection level outside their choices.
\<close>

definition fresh_world :: "(nat \<Rightarrow> nat) \<Rightarrow> world" where
  "fresh_world rnd = \<lparr>lastIndex = fresh_regexes, vocab = vocab0, random = rnd\<rparr>"

definition no_options :: options where
  "no_options = \<lparr>style = JUndefined, mood = JUndefined, imperfectionLevel = JUndefined,
     preserveOriginal = JUndefined\<rparr>"

text \<open>
  The vocabulary of a running program: every table holds the phrases the module defined,
  in some order.
\<close>

definition vocab_ok :: "vocabulary \<Rightarrow> bool" where
  "vocab_ok v \<longleftrightarrow> (\<forall>t. mset (v t) = mset (vocab0 t))"

definition invalid_options :: options where
  "invalid_options = no_options\<lparr>mood := JString (str ''gloomy''),
     imperfectionLevel := JString (str ''extreme'')\<rparr>"


definition technical_phrases :: "jsstring set" where
  "technical_phrases = insert (str ''smartphone photo'')
     (set (vocab0 CAMERAS_film) \<union> set (vocab0 CAMERAS_modern) \<union> set (vocab0 LENSES)
      \<union> set (vocab0 LIGHTING_moody) \<union> set (vocab0 LIGHTING_artificial)
      \<union> set (vocab0 LIGHTING_natural))"

text \<open>A prompt that is empty or consists of white space.\<close>

definition whitespace_only :: "jsstring \<Rightarrow> bool" where
  "whitespace_only s = list_all is_space s"

subsection \<open>Notions for the stripping of resolution tokens\<close>

text \<open>
  The standalone token \<open>8k\<close>, in either case: the regular expression \<open>/\b8k\b/i\<close>.  A
  string contains the token when the expression matches somewhere.
\<close>

definition token_8k :: regexp where
  "token_8k = rx_i (seqs [WordB, lit ''8k'', WordB])"

definition has_8k :: "jsstring \<Rightarrow> bool" where
  "has_8k s = fst (regexp_test token_8k 0 s)"

text \<open>
  The same notion on the code units: an \<open>8\<close> followed by \<open>k\<close> or \<open>K\<close>, after a
  prefix that does not end in a word character and before a suffix that does not start
  with one.
\<close>

definition ends_clear :: "jsstring \<Rightarrow> bool" where
  "ends_clear A \<longleftrightarrow> A = [] \<or> \<not> is_word (last A)"

definition starts_clear :: "jsstring \<Rightarrow> bool" where
  "starts_clear B \<longleftrightarrow> B = [] \<or> \<not> is_word (hd B)"

definition tok8k :: "jsstring \<Rightarrow> bool" where
  "tok8k s \<longleftrightarrow> (\<exists>A k B. s = A @ 56 # k # B \<and> (k = 107 \<or> k = 75)
     \<and> ends_clear A \<and> starts_clear B)"

text \<open>The characters \<open>8k\<close> or \<open>8K\<close> anywhere in a string, as a program.\<close>

fun eight_k :: "jsstring \<Rightarrow> bool" where
  "eight_k (a # b # xs) \<longleftrightarrow> (a = 56 \<and> (b = 107 \<or> b = 75)) \<or> eight_k (b # xs)"
| "eight_k xs \<longleftrightarrow> False"

text \<open>All the tables of the vocabulary.\<close>

definition tables :: "table list" where
  "tables = [CAMERAS_film, CAMERAS_professional, CAMERAS_modern, LENSES, LIGHTING_natural,
     LIGHTING_artificial, LIGHTING_moody, IMPERFECTIONS_film, IMPERFECTIONS_focus,
     IMPERFECTIONS_physical, IMPERFECTIONS_surface, HUMAN_DETAILS, COMPOSITION_natural,
     COMPOSITION_angles, COMPOSITION_distance, ENVIRONMENT_clutter, ENVIRONMENT_atmosphere,
     ENVIRONMENT_time, STYLES]"

text \<open>
  The matches that a global replacement visits from position \<open>n\<close> on: each is the first
  match at or after the end of the one before, none is empty, and no match follows the last.
\<close>

fun scan_ok :: "regexp \<Rightarrow> jsstring \<Rightarrow> nat \<Rightarrow> (nat \<times> nat) list \<Rightarrow> bool" where
  "scan_ok re s n [] \<longleftrightarrow> (\<forall>i. n \<le> i \<and> i \<le> length s \<longrightarrow> \<not> matches_at re s i)"
| "scan_ok re s n ((j, e) # ms) \<longleftrightarrow>
     n \<le> j \<and> j < e \<and> e \<le> length s \<and> (\<forall>i. n \<le> i \<and> i < j \<longrightarrow> \<not> matches_at re s i)
     \<and> e \<in> set (rmatch (ignoreCase re) (pattern re) s j) \<and> scan_ok re s e ms"

text \<open>
  Shapes of matches.  A removed phrase starts at a word character on a boundary and either
  ends before a non-word character or ends in one; a replaced phrase starts and ends at a
  boundary and holds no \<open>8\<close>.
\<close>

definition chunk :: "jsstring \<Rightarrow> nat \<Rightarrow> nat \<Rightarrow> bool" where
  "chunk s j e \<longleftrightarrow> word_at s j \<and> boundary s j
     \<and> (starts_clear (drop e s) \<or> \<not> word_at s (e - 1))"

definition phrase_at :: "jsstring \<Rightarrow> nat \<Rightarrow> nat \<Rightarrow> bool" where
  "phrase_at s j e \<longleftrightarrow> word_at s j \<and> boundary s j \<and> starts_clear (drop e s) \<and> j < e
     \<and> 56 \<notin> set (slice s j e)"

text \<open>
  Shapes of patterns: those whose matches start with a word character, those whose matches
  end with one, and those made of literals without an \<open>8\<close>.
\<close>

fun starts_word :: "regex \<Rightarrow> bool" where
  "starts_word (Lit w) \<longleftrightarrow> w \<noteq> [] \<and> is_word (hd w)"
| "starts_word (Alt a b) \<longleftrightarrow> starts_word a \<and> starts_word b"
| "starts_word (Seq a b) \<longleftrightarrow> starts_word a"
| "starts_word r \<longleftrightarrow> False"

fun ends_word :: "regex \<Rightarrow> bool" where
  "ends_word (Lit w) \<longleftrightarrow> w \<noteq> [] \<and> is_word (last w)"
| "ends_word (Alt a b) \<longleftrightarrow> ends_word a \<and> ends_word b"
| "ends_word (Seq a b) \<longleftrightarrow> ends_word b"
| "ends_word r \<longleftrightarrow> False"

fun no_eight :: "regex \<Rightarrow> bool" where
  "no_eight (Lit w) \<longleftrightarrow> 56 \<notin> set w"
| "no_eight (Alt a b) \<longleftrightarrow> no_eight a \<and> no_eight b"
| "no_eight (Seq a b) \<longleftrightarrow> no_eight a \<and> no_eight b"
| "no_eight r \<longleftrightarrow> False"

text \<open>The name of a generic location: it ends in a word character and holds no \<open>8\<close>.\<close>

definition place :: "string \<Rightarrow> bool" where
  "place g \<longleftrightarrow> g \<noteq> [] \<and> is_word (last (str g)) \<and> 56 \<notin> set (str g)"

section \<open>Evaluation\<close>

lemmas eval_match = find_match_def matches_at_def rx_def rx_g_def
   rx_i_def rx_gi_def words_def lit_def str_simps cu_simps boundary_def word_at_def is_word_def
   char_eq_def canonicalize_def in_class_def is_digit_def is_space_def run_length_def

lemmas eval_regex = regexp_test_def eval_match

lemmas eval_analyze = analyzePrompt_def AI_PRONE_PATTERNS_def REALISM_INDICATORS_def
   run_matcher_def issue_of_def detect_style_stacking_def detect_missing_imperfection_def
   detect_missing_camera_def string_match_def exec_all.simps style_words_def
   imperfectionWords_def cameraWords_def fresh_regexes_def

lemma regexp_test_nonglobal:
  "\<not> global re \<Longrightarrow> regexp_test re n s = (find_match re s 0 \<noteq> None, n)"
  by (simp add: regexp_test_def)

lemma regexp_test_empty_global:
  assumes "global re" and "rmatch (ignoreCase re) (pattern re) [] 0 = []"
  shows "regexp_test re n [] = (False, 0)"
proof (cases "n = 0")
  case True
  with assms show ?thesis
    by (simp add: regexp_test_def find_match_def matches_at_def)
next
  case False
  with assms show ?thesis by (simp add: regexp_test_def)
qed

section \<open>The scorer\<close>

subsection \<open>Strings never fail\<close>

lemma run_matcher_string:
  assumes "(\<exists>re. matcher p = Regex re) \<or> (\<exists>f b. matcher p = Detect f \<and> f v = Inr b)"
  shows "\<exists>m li'. run_matcher p v li = (Inr m, li')"
  using assms by (auto simp: run_matcher_def split: prod.splits)

lemma check_patterns_total:
  assumes "\<And>p. p \<in> set ps \<Longrightarrow>
    (\<exists>re. matcher p = Regex re) \<or> (\<exists>f b. matcher p = Detect f \<and> f v = Inr b)"
  shows "\<exists>x li'. check_patterns ps v li iss ai = (Inr x, li')"
  using assms
proof (induction ps arbitrary: li iss ai)
  case Nil
  show ?case by simp
next
  case (Cons p ps)
  from Cons.prems [of p] obtain m li1 where m: "run_matcher p v li = (Inr m, li1)"
    using run_matcher_string [of p v li] by auto
  have rest: "\<And>q. q \<in> set ps \<Longrightarrow>
    (\<exists>re. matcher q = Regex re) \<or> (\<exists>f b. matcher q = Detect f \<and> f v = Inr b)"
    using Cons.prems by simp
  show ?case
    using m Cons.IH [OF rest, of li1] by (cases m) simp_all
qed

lemma patterns_matchers:
  assumes "p \<in> set AI_PRONE_PATTERNS"
  shows "(\<exists>re. matcher p = Regex re)
    \<or> (\<exists>f b. matcher p = Detect f \<and> f (JString s) = Inr b)"
  using assms
  by (auto simp: AI_PRONE_PATTERNS_def detect_style_stacking_def
      detect_missing_imperfection_def detect_missing_camera_def)

text \<open>
  Claim C10.  For every string, also the empty string and one without letters,
  \<open>analyzePrompt\<close> returns a result: no rule and no predicate raises, whatever the
  state of the regular expressions.  (The pattern engine and the loops it is used in are
  total functions of the model.)
\<close>

theorem analyzePrompt_total:
  "\<exists>r li'. analyzePrompt (JString s) li = (Inr r, li')"
proof -
  obtain x li' where "check_patterns AI_PRONE_PATTERNS (JString s) li [] 0 = (Inr x, li')"
    using check_patterns_total [of AI_PRONE_PATTERNS "JString s" li "[]" 0] patterns_matchers
    by blast
  then show ?thesis
    by (cases x) (simp add: analyzePrompt_def Let_def)
qed


subsection \<open>The score\<close>

lemma run_matcher_test:
  assumes "run_matcher p (JString s) li = (Inr m, li1)"
  shows "m = rule_test p s li" and "\<And>k. k \<noteq> id' p \<Longrightarrow> li1 k = li k"
  using assms
  by (auto simp: run_matcher_def rule_test_def split: matcher.splits prod.splits)

lemma rule_test_cong:
  "li1 (id' p) = li (id' p) \<Longrightarrow> rule_test p s li1 = rule_test p s li"
  by (simp add: rule_test_def split: matcher.splits)

lemma check_patterns_sum:
  assumes "check_patterns ps (JString s) li iss ai = (Inr (iss', ai'), li')"
    and "distinct (map id' ps)"
  shows "ai' = ai + sum_list (map weight (filter (\<lambda>p. rule_test p s li) ps))
    \<and> iss' = iss @ map issue_of (filter (\<lambda>p. rule_test p s li) ps)"
  using assms
proof (induction ps arbitrary: li iss ai)
  case Nil
  then show ?case by simp
next
  case (Cons p ps)
  obtain r li1 where r: "run_matcher p (JString s) li = (r, li1)"
    by (cases "run_matcher p (JString s) li")
  with Cons.prems(1) obtain m where m: "r = Inr m"
    by (cases r) simp_all
  note h = run_matcher_test [OF r [unfolded m]]
  have same: "rule_test q s li1 = rule_test q s li" if "q \<in> set ps" for q
  proof -
    from that have "id' q \<in> id' ` set ps" by (rule imageI)
    with Cons.prems(2) have "id' q \<noteq> id' p" by auto
    then show ?thesis using h(2) rule_test_cong by blast
  qed
  then have filt: "filter (\<lambda>q. rule_test q s li1) ps = filter (\<lambda>q. rule_test q s li) ps"
    by (simp cong: filter_cong)
  have d: "distinct (map id' ps)" using Cons.prems(2) by simp
  show ?case
  proof (cases m)
    case True
    with Cons.prems(1) r m
    have "check_patterns ps (JString s) li1 (iss @ [issue_of p]) (ai + weight p) = (Inr (iss', ai'), li')"
      by simp
    from Cons.IH [OF this d] True h(1) filt show ?thesis by simp
  next
    case False
    with Cons.prems(1) r m
    have "check_patterns ps (JString s) li1 iss ai = (Inr (iss', ai'), li')"
      by simp
    from Cons.IH [OF this d] False h(1) filt show ?thesis by simp
  qed
qed

lemma check_indicators_sum:
  "check_indicators inds s re = re + sum_list (map ind_weight (filter (\<lambda>i. indicator_test i s) inds))"
  by (induction inds arbitrary: re) (simp_all add: indicator_test_def)

lemma distinct_pattern_ids: "distinct (map id' AI_PRONE_PATTERNS)"
  by (simp add: AI_PRONE_PATTERNS_def str_simps cu_simps)

lemma analyzePrompt_string:
  "\<exists>li'. analyzePrompt (JString s) li =
     (Inr \<lparr>score = min 100 (max 0 (sum_list (map weight (filter (\<lambda>p. rule_test p s li) AI_PRONE_PATTERNS))
                  - sum_list (map ind_weight (filter (\<lambda>i. indicator_test i s) REALISM_INDICATORS))) * 5),
           aiScore = sum_list (map weight (filter (\<lambda>p. rule_test p s li) AI_PRONE_PATTERNS)),
           realismScore = sum_list (map ind_weight (filter (\<lambda>i. indicator_test i s) REALISM_INDICATORS)),
           issues = map issue_of (filter (\<lambda>p. rule_test p s li) AI_PRONE_PATTERNS),
           issueCount = length (filter (\<lambda>p. rule_test p s li) AI_PRONE_PATTERNS)\<rparr>, li')"
proof -
  obtain x li' where x: "check_patterns AI_PRONE_PATTERNS (JString s) li [] 0 = (Inr x, li')"
    using check_patterns_total [of AI_PRONE_PATTERNS "JString s" li "[]" 0] patterns_matchers
    by blast
  obtain iss ai where xa: "x = (iss, ai)" by (cases x)
  from check_patterns_sum [OF x [unfolded xa] distinct_pattern_ids]
  have ai: "ai = sum_list (map weight (filter (\<lambda>p. rule_test p s li) AI_PRONE_PATTERNS))"
    and iss: "iss = map issue_of (filter (\<lambda>p. rule_test p s li) AI_PRONE_PATTERNS)"
    by simp_all
  show ?thesis
    using x xa ai iss check_indicators_sum [of REALISM_INDICATORS s 0]
    by (simp add: analyzePrompt_def Let_def)
qed

lemma analyzePrompt_range:
  "\<exists>r li'. analyzePrompt (JString s) li = (Inr r, li')
     \<and> score r = min 100 (max 0 (aiScore r - realismScore r) * 5)
     \<and> 0 \<le> score r \<and> score r \<le> 100"
  using analyzePrompt_string [of s li] by auto

subsection \<open>The score and the rules that match\<close>

lemma occurs_test: "fst (regexp_test re 0 s) = occurs re s"
proof -
  have "fst (regexp_test re 0 s) \<longleftrightarrow> find_match re s 0 \<noteq> None"
    by (simp add: regexp_test_def split: option.splits)
  also have "\<dots> \<longleftrightarrow> List.find (matches_at re s) [0 ..< Suc (length s)] \<noteq> None"
    by (simp add: find_match_def split: option.splits del: upt_Suc)
  also have "\<dots> \<longleftrightarrow> (\<exists>j \<in> set [0 ..< Suc (length s)]. matches_at re s j)"
    by (auto simp: find_None_iff simp del: upt_Suc)
  also have "\<dots> \<longleftrightarrow> occurs re s"
    by (simp add: occurs_def list_ex_iff matches_at_def del: upt_Suc)
  finally show ?thesis .
qed

lemma rule_test_fresh: "rule_test p s fresh_regexes = rule_matches p s"
  by (simp add: rule_test_def rule_matches_def fresh_regexes_def occurs_test split: matcher.splits)

lemma indicator_test_matches: "indicator_test i s = indicator_matches i s"
  by (simp add: indicator_test_def indicator_matches_def occurs_test)

text \<open>
  In a freshly loaded module the score is the one of the rules and indicators that match
  the prompt, for every string prompt.
\<close>

lemma analyzePrompt_fresh_score:
  "\<exists>r li'. analyzePrompt (JString s) fresh_regexes = (Inr r, li')
     \<and> aiScore r = matched_weight s \<and> realismScore r = realism_weight s
     \<and> score r = min 100 (max 0 (matched_weight s - realism_weight s) * 5)
     \<and> 0 \<le> score r \<and> score r \<le> 100"
  using analyzePrompt_string [of s fresh_regexes]
  by (auto simp: matched_weight_def realism_weight_def rule_test_fresh indicator_test_matches)

lemma resolution_calls:
  "(case analyzePrompt (JString (str ''8k'')) fresh_regexes of
      (r1, li1) \<Rightarrow>
        map_sum id (\<lambda>r. (aiScore r, realismScore r, score r)) r1 = Inr (10, 0, 50)
        \<and> map_sum id (\<lambda>r. (aiScore r, realismScore r, score r))
             (fst (analyzePrompt (JString (str ''8k'')) li1)) = Inr (7, 0, 35))"
  by (simp add: eval_analyze eval_regex cong: prod.case_cong_weak let_weak_cong)

text \<open>
  Claim C3.  The score is \<open>min(100, round(max(0, aiScore - realismScore) * 5))\<close> of the
  two sums in every call, and in a freshly loaded module the sums are those of the rules
  and indicators that match the prompt.  In a call that follows another they need not
  be.  The rules and indicators that match the prompt \<open>8k\<close> weigh 10 and 0, which makes
  the score 50, and the first call returns that; the second call in a row has
  \<open>aiScore\<close> 7 and the score 35: the rule \<open>8k-4k\<close> matches the prompt, but the test
  of its regular expression, which has the \<open>g\<close> flag, starts behind the match.
\<close>

theorem analyzePrompt_score_second_call:
  "\<exists>r1 li1 r2 li2.
       analyzePrompt (JString (str ''8k'')) fresh_regexes = (Inr r1, li1)
     \<and> analyzePrompt (JString (str ''8k'')) li1 = (Inr r2, li2)
     \<and> matched_weight (str ''8k'') = 10 \<and> realism_weight (str ''8k'') = 0
     \<and> min 100 (max 0 (matched_weight (str ''8k'') - realism_weight (str ''8k'')) * 5) = 50
     \<and> aiScore r1 = 10 \<and> realismScore r1 = 0 \<and> score r1 = 50
     \<and> aiScore r2 = 7 \<and> realismScore r2 = 0 \<and> score r2 = 35"
proof -
  obtain r1 li1 where 1: "analyzePrompt (JString (str ''8k'')) fresh_regexes = (Inr r1, li1)"
    and m: "aiScore r1 = matched_weight (str ''8k'')" "realismScore r1 = realism_weight (str ''8k'')"
    using analyzePrompt_fresh_score [of "str ''8k''"] by blast
  obtain r2 li2 where 2: "analyzePrompt (JString (str ''8k'')) li1 = (Inr r2, li2)"
    using analyzePrompt_range [of "str ''8k''" li1] by blast
  from resolution_calls 1 2
  have v: "aiScore r1 = 10" "realismScore r1 = 0" "score r1 = 50"
    "aiScore r2 = 7" "realismScore r2 = 0" "score r2 = 35"
    by simp_all
  with m have w: "matched_weight (str ''8k'') = 10" "realism_weight (str ''8k'') = 0" by simp_all
  have "analyzePrompt (JString (str ''8k'')) fresh_regexes = (Inr r1, li1)
     \<and> analyzePrompt (JString (str ''8k'')) li1 = (Inr r2, li2)
     \<and> matched_weight (str ''8k'') = 10 \<and> realism_weight (str ''8k'') = 0
     \<and> min 100 (max 0 (matched_weight (str ''8k'') - realism_weight (str ''8k'')) * 5) = 50
     \<and> aiScore r1 = 10 \<and> realismScore r1 = 0 \<and> score r1 = 50
     \<and> aiScore r2 = 7 \<and> realismScore r2 = 0 \<and> score r2 = 35"
    using 1 2 v w by simp
  then show ?thesis by (intro exI)
qed


lemma empty_tests:
  "filter (\<lambda>p. rule_test p [] li) AI_PRONE_PATTERNS
     = [AI_PRONE_PATTERNS ! 9, AI_PRONE_PATTERNS ! 10]"
  by (simp add: AI_PRONE_PATTERNS_def rule_test_def regexp_test_nonglobal regexp_test_empty_global
      eval_match detect_style_stacking_def detect_missing_imperfection_def
      detect_missing_camera_def string_match_def exec_all.simps style_words_def
      imperfectionWords_def cameraWords_def)

lemma empty_indicators:
  "filter (\<lambda>i. indicator_test i []) REALISM_INDICATORS = []"
  by (simp add: REALISM_INDICATORS_def indicator_test_def regexp_test_nonglobal eval_match)

text \<open>
  Claim C2, as the code has it.  On the empty string the two absence rules match and no
  other rule does: \<open>analyzePrompt\<close> returns the score 35 and the issues
  \<open>missing-imperfection\<close> and \<open>missing-camera\<close>, in every state of the regular
  expressions.
\<close>

theorem analyzePrompt_empty:
  "\<exists>r li'. analyzePrompt (JString []) li = (Inr r, li') \<and> score r = 35
     \<and> map id' (issues r) = [str ''missing-imperfection'', str ''missing-camera'']"
proof -
  obtain li' r where r: "analyzePrompt (JString []) li = (Inr r, li')"
    and s: "score r = min 100 (max 0 (sum_list (map weight (filter (\<lambda>p. rule_test p [] li) AI_PRONE_PATTERNS))
                  - sum_list (map ind_weight (filter (\<lambda>i. indicator_test i []) REALISM_INDICATORS))) * 5)"
    and i: "issues r = map issue_of (filter (\<lambda>p. rule_test p [] li) AI_PRONE_PATTERNS)"
    using analyzePrompt_string [of "[]" li] by auto
  have "score r = 35"
    unfolding s empty_tests empty_indicators by (simp add: AI_PRONE_PATTERNS_def)
  moreover have "map id' (issues r) = [str ''missing-imperfection'', str ''missing-camera'']"
    unfolding i empty_tests by (simp add: AI_PRONE_PATTERNS_def issue_of_def)
  ultimately have "analyzePrompt (JString []) li = (Inr r, li') \<and> score r = 35
     \<and> map id' (issues r) = [str ''missing-imperfection'', str ''missing-camera'']"
    using r by simp
  then show ?thesis by (intro exI)
qed

text \<open>The claim as stated, score 0 and no issue, fails on a fresh module.\<close>

theorem analyzePrompt_empty_counterexample:
  "(case fst (analyzePrompt (JString []) fresh_regexes) of
      Inr r \<Rightarrow> score r = 35 \<and> length (issues r) = 2
    | Inl e \<Rightarrow> False)"
proof -
  obtain li' r where r: "analyzePrompt (JString []) fresh_regexes = (Inr r, li')"
    and s: "score r = min 100 (max 0 (sum_list (map weight (filter (\<lambda>p. rule_test p [] fresh_regexes) AI_PRONE_PATTERNS))
                  - sum_list (map ind_weight (filter (\<lambda>i. indicator_test i []) REALISM_INDICATORS))) * 5)"
    and i: "issues r = map issue_of (filter (\<lambda>p. rule_test p [] fresh_regexes) AI_PRONE_PATTERNS)"
    using analyzePrompt_string [of "[]" fresh_regexes] by auto
  have "score r = 35"
    unfolding s empty_tests empty_indicators by (simp add: AI_PRONE_PATTERNS_def)
  moreover have "length (issues r) = 2"
    unfolding i empty_tests by simp
  ultimately show ?thesis using r by simp
qed


text \<open>
  Claim C1.  Two calls in a row on the prompt \<open>8k\<close>, from a fresh module: the first
  returns the score 50, the second the score 35.  The rule \<open>8k-4k\<close> has a regular
  expression with the \<open>g\<close> flag, whose \<open>test\<close> resumes at the \<open>lastIndex\<close> the
  first call left behind.
\<close>

theorem analyzePrompt_repeated:
  "(case analyzePrompt (JString (str ''8k'')) fresh_regexes of
      (r1, li1) \<Rightarrow>
        map_sum id score r1 = Inr 50
        \<and> map_sum id score (fst (analyzePrompt (JString (str ''8k'')) li1)) = Inr 35)"
  by (simp add: eval_analyze eval_regex cong: prod.case_cong_weak let_weak_cong)


lemma check_patterns_error:
  assumes "\<And>p. p \<in> set ps \<Longrightarrow> \<exists>re. matcher p = Regex re"
    and "matcher q = Detect f" and "f v = Inl e"
  shows "fst (check_patterns (ps @ q # qs) v li iss ai) = Inl e"
  using assms(1)
proof (induction ps arbitrary: li iss ai)
  case Nil
  show ?case using assms(2,3) by (simp add: run_matcher_def)
next
  case (Cons p ps)
  from Cons.prems [of p] obtain m li1 where m: "run_matcher p v li = (Inr m, li1)"
    using run_matcher_string [of p v li] by auto
  have rest: "\<And>x. x \<in> set ps \<Longrightarrow> \<exists>re. matcher x = Regex re"
    using Cons.prems by simp
  show ?case
    using m Cons.IH [OF rest, of li1] by (cases m) simp_all
qed

lemma patterns_split:
  "AI_PRONE_PATTERNS = take 8 AI_PRONE_PATTERNS @ AI_PRONE_PATTERNS ! 8 # drop 9 AI_PRONE_PATTERNS"
  by (simp add: AI_PRONE_PATTERNS_def)

lemma patterns_prefix:
  "p \<in> set (take 8 AI_PRONE_PATTERNS) \<Longrightarrow> \<exists>re. matcher p = Regex re"
  by (auto simp: AI_PRONE_PATTERNS_def)

lemma patterns_ninth: "matcher (AI_PRONE_PATTERNS ! 8) = Detect detect_style_stacking"
  by (simp add: AI_PRONE_PATTERNS_def)

lemma style_stacking_non_string:
  "\<not> is_string v \<Longrightarrow> detect_style_stacking v = Inl TypeError"
  by (cases v) (simp_all add: detect_style_stacking_def)

lemma analyzePrompt_type_error:
  assumes "\<not> is_string v"
  shows "fst (analyzePrompt v li) = Inl TypeError"
proof -
  have "fst (check_patterns (take 8 AI_PRONE_PATTERNS @ AI_PRONE_PATTERNS ! 8
      # drop 9 AI_PRONE_PATTERNS) v li [] 0) = Inl TypeError"
    using patterns_prefix patterns_ninth style_stacking_non_string [OF assms]
    by (rule check_patterns_error)
  then have "fst (check_patterns AI_PRONE_PATTERNS v li [] 0) = Inl TypeError"
    using patterns_split by simp
  then show ?thesis
    by (cases "check_patterns AI_PRONE_PATTERNS v li [] 0") (simp add: analyzePrompt_def)
qed

text \<open>
  Claim C7, as the code has it.  On an input that is not a string (a number, a boolean,
  \<open>null\<close>, \<open>undefined\<close>) \<open>analyzePrompt\<close> raises a \<open>TypeError\<close>: the regular
  expressions of the first eight rules are tested against the input coerced to a string,
  then the predicate of \<open>style-stacking\<close> calls \<open>prompt.match\<close>, which does not exist.
\<close>

theorem analyzePrompt_non_string:
  "\<not> is_string v \<Longrightarrow> fst (analyzePrompt v li) = Inl TypeError"
  by (rule analyzePrompt_type_error)

theorem analyzePrompt_non_string_witness:
  "\<not> is_string (JNumber (str ''8'')) \<and> fst (analyzePrompt (JNumber (str ''8'')) fresh_regexes) = Inl TypeError"
  using analyzePrompt_non_string [of "JNumber (str ''8'')" fresh_regexes] by simp

theorem analyzePrompt_non_string_counterexample:
  "fst (analyzePrompt JNull fresh_regexes) \<noteq> Inl InvalidInput"
  using analyzePrompt_type_error [of JNull fresh_regexes] by simp


section \<open>The transformer\<close>

subsection \<open>The steps of a call\<close>

lemma analyze_total:
  "\<exists>a li. analyze p w = (Inr a, w\<lparr>lastIndex := li\<rparr>)"
proof -
  obtain r li where "analyzePrompt (JString p) (lastIndex w) = (Inr r, li)"
    using analyzePrompt_string [of p "lastIndex w"] by blast
  then have "analyze p w = (Inr r, w\<lparr>lastIndex := li\<rparr>)"
    by (simp add: analyze_def)
  then show ?thesis by (intro exI)
qed

lemma transformPrompt_steps:
  obtains a li1 subj w2 loc w3 tech w4 imps w5 cmp w6 hum w7 n li8 where
    "analyze p w0 = (Inr a, w0\<lparr>lastIndex := li1\<rparr>)"
    "enhanceSubject (if truthy (default_to (JBoolean False) (preserveOriginal opts)) then p
       else cleanPrompt p) (w0\<lparr>lastIndex := li1\<rparr>) = (subj, w2)"
    "enhanceLocation subj w2 = (loc, w3)"
    "buildTechnicalModifiers (default_to (JString (str ''film'')) (style opts))
        (default_to (JString (str ''natural'')) (mood opts)) w3 = (tech, w4)"
    "buildImperfections (default_to (JString (str ''medium'')) (imperfectionLevel opts)) w4 = (imps, w5)"
    "getRandomModifiers (Arr COMPOSITION_natural) 1 w5 = (cmp, w6)"
    "(if hasHumanSubject p then getRandomModifiers (Arr HUMAN_DETAILS) 2 w6 else ([], w6)) = (hum, w7)"
    "analyze (join (str '', '') (loc # filter (\<lambda>x. x \<noteq> []) (tech @ imps @ cmp @ hum))) w7
        = (Inr n, w7\<lparr>lastIndex := li8\<rparr>)"
    "transformPrompt p opts w0 =
        (Inr \<lparr>original = p,
              transformed = join (str '', '') (loc # filter (\<lambda>x. x \<noteq> []) (tech @ imps @ cmp @ hum)),
              originalScore = score a,
              newScore = score n,
              improvement = score a - score n,
              issuesFixed = map name (issues a),
              modifiersAdded = filter (\<lambda>x. x \<noteq> []) (tech @ imps @ cmp @ hum)\<rparr>,
         w7\<lparr>lastIndex := li8\<rparr>)"
proof -
  define cleaned where
    "cleaned = (if truthy (default_to (JBoolean False) (preserveOriginal opts)) then p else cleanPrompt p)"
  obtain a li1 where a: "analyze p w0 = (Inr a, w0\<lparr>lastIndex := li1\<rparr>)"
    using analyze_total by blast
  obtain subj w2 where s: "enhanceSubject cleaned (w0\<lparr>lastIndex := li1\<rparr>) = (subj, w2)"
    by (cases "enhanceSubject cleaned (w0\<lparr>lastIndex := li1\<rparr>)")
  obtain loc w3 where l: "enhanceLocation subj w2 = (loc, w3)"
    by (cases "enhanceLocation subj w2")
  obtain tech w4 where t: "buildTechnicalModifiers (default_to (JString (str ''film'')) (style opts))
        (default_to (JString (str ''natural'')) (mood opts)) w3 = (tech, w4)"
    by (cases "buildTechnicalModifiers (default_to (JString (str ''film'')) (style opts))
        (default_to (JString (str ''natural'')) (mood opts)) w3")
  obtain imps w5 where i: "buildImperfections (default_to (JString (str ''medium'')) (imperfectionLevel opts)) w4 = (imps, w5)"
    by (cases "buildImperfections (default_to (JString (str ''medium'')) (imperfectionLevel opts)) w4")
  obtain cmp w6 where c: "getRandomModifiers (Arr COMPOSITION_natural) 1 w5 = (cmp, w6)"
    by (cases "getRandomModifiers (Arr COMPOSITION_natural) 1 w5")
  obtain hum w7 where h: "(if hasHumanSubject p then getRandomModifiers (Arr HUMAN_DETAILS) 2 w6 else ([], w6)) = (hum, w7)"
    by (cases "(if hasHumanSubject p then getRandomModifiers (Arr HUMAN_DETAILS) 2 w6 else ([], w6))")
  obtain n li8 where n: "analyze (join (str '', '') (loc # filter (\<lambda>x. x \<noteq> []) (tech @ imps @ cmp @ hum))) w7
        = (Inr n, w7\<lparr>lastIndex := li8\<rparr>)"
    using analyze_total by blast
  have "transformPrompt p opts w0 =
        (Inr \<lparr>original = p,
              transformed = join (str '', '') (loc # filter (\<lambda>x. x \<noteq> []) (tech @ imps @ cmp @ hum)),
              originalScore = score a,
              newScore = score n,
              improvement = score a - score n,
              issuesFixed = map name (issues a),
              modifiersAdded = filter (\<lambda>x. x \<noteq> []) (tech @ imps @ cmp @ hum)\<rparr>,
         w7\<lparr>lastIndex := li8\<rparr>)"
    unfolding transformPrompt_def Let_def
    using a s l t i c h n unfolding cleaned_def by simp
  with a s [unfolded cleaned_def] l t i c h n show ?thesis by (rule that)
qed

lemma transformPrompt_plain:
  assumes "base = (if truthy (default_to (JBoolean False) (preserveOriginal opts)) then p
       else cleanPrompt p)"
    and "\<And>w. enhanceSubject base w = (base, w)"
    and "\<And>w. enhanceLocation base w = (base, w)"
    and "\<not> hasHumanSubject p"
  obtains li1 r tech w4 imps w5 cmp w6 li8 where
    "buildTechnicalModifiers (default_to (JString (str ''film'')) (style opts))
        (default_to (JString (str ''natural'')) (mood opts)) (w\<lparr>lastIndex := li1\<rparr>) = (tech, w4)"
    "buildImperfections (default_to (JString (str ''medium'')) (imperfectionLevel opts)) w4 = (imps, w5)"
    "getRandomModifiers (Arr COMPOSITION_natural) 1 w5 = (cmp, w6)"
    "transformPrompt p opts w = (Inr r, w6\<lparr>lastIndex := li8\<rparr>)"
    "modifiersAdded r = filter (\<lambda>x. x \<noteq> []) (tech @ imps @ cmp)"
    "transformed r = join (str '', '') (base # modifiersAdded r)"
proof -
  obtain a li1 subj w2 loc w3 tech w4 imps w5 cmp w6 hum w7 n li8 where
    a: "analyze p w = (Inr a, w\<lparr>lastIndex := li1\<rparr>)"
    and s: "enhanceSubject (if truthy (default_to (JBoolean False) (preserveOriginal opts)) then p
          else cleanPrompt p) (w\<lparr>lastIndex := li1\<rparr>) = (subj, w2)"
    and l: "enhanceLocation subj w2 = (loc, w3)"
    and t: "buildTechnicalModifiers (default_to (JString (str ''film'')) (style opts))
        (default_to (JString (str ''natural'')) (mood opts)) w3 = (tech, w4)"
    and i: "buildImperfections (default_to (JString (str ''medium'')) (imperfectionLevel opts)) w4 = (imps, w5)"
    and c: "getRandomModifiers (Arr COMPOSITION_natural) 1 w5 = (cmp, w6)"
    and h: "(if hasHumanSubject p then getRandomModifiers (Arr HUMAN_DETAILS) 2 w6 else ([], w6)) = (hum, w7)"
    and n: "analyze (join (str '', '') (loc # filter (\<lambda>x. x \<noteq> []) (tech @ imps @ cmp @ hum))) w7
        = (Inr n, w7\<lparr>lastIndex := li8\<rparr>)"
    and r: "transformPrompt p opts w =
        (Inr \<lparr>original = p,
              transformed = join (str '', '') (loc # filter (\<lambda>x. x \<noteq> []) (tech @ imps @ cmp @ hum)),
              originalScore = score a,
              newScore = score n,
              improvement = score a - score n,
              issuesFixed = map name (issues a),
              modifiersAdded = filter (\<lambda>x. x \<noteq> []) (tech @ imps @ cmp @ hum)\<rparr>,
         w7\<lparr>lastIndex := li8\<rparr>)"
    by (rule transformPrompt_steps [of p w opts])
  from s assms(1,2) have s': "subj = base" "w2 = w\<lparr>lastIndex := li1\<rparr>" by simp_all
  from l s' assms(3) have l': "loc = base" "w3 = w\<lparr>lastIndex := li1\<rparr>" by simp_all
  from h assms(4) have h': "hum = []" "w7 = w6" by simp_all
  show ?thesis
    by (rule that [OF t [unfolded l'] i c r [unfolded h']]) (simp_all add: l' h')
qed

lemmas eval_replace = string_replace_def replace_str_def constantly_def slice_def exec_all.simps

lemmas eval_clean = cleanPrompt_def strip_resolution_def strip_platform_def strip_realistic_def
  strip_beauty_def strip_lighting_def strip_tail_def double_comma_def spaces_def outer_separators_def

lemmas eval_enhance = enhanceSubject_def enhanceLocation_def bare_woman_man_def bare_person_def
  enhance_woman_man_def enhance_person_def locationEnhancements_def location_regex_def
  random_index_def draw_def ages_def details_def types_def

lemmas eval_modifiers = buildTechnicalModifiers_def buildImperfections_def getRandomModifiers_def
  default_to_def first_def draw_def hasHumanSubject_def human_words_def


lemmas eval_pick = eval_modifiers vocab0.simps str_simps cu_simps fresh_world_def no_options_def

lemma clean_x: "cleanPrompt (str ''x'') = str ''x''"
  by (simp add: eval_clean eval_replace eval_match cong: prod.case_cong_weak let_weak_cong)

lemma subj_x: "enhanceSubject (str ''x'') w = (str ''x'', w)"
  by (simp add: eval_enhance eval_replace eval_match cong: prod.case_cong_weak let_weak_cong)

lemma loc_x: "enhanceLocation (str ''x'') w = (str ''x'', w)"
  by (simp add: eval_enhance eval_replace eval_regex cong: prod.case_cong_weak let_weak_cong)

lemma human_x: "\<not> hasHumanSubject (str ''x'')"
  by (simp add: eval_modifiers eval_regex cong: prod.case_cong_weak let_weak_cong)

subsection \<open>Random selection\<close>

lemma mset_permute: "mset (permute k xs) = mset xs"
proof (induction k xs rule: permute.induct)
  case (1 k)
  show ?case by simp
next
  case (2 k x xs)
  define l where "l = x # xs"
  define i where "i = k mod length l"
  have i: "i < length l" unfolding i_def l_def by simp
  have "mset (permute k l) = {#l ! i#} + mset (take i l @ drop (Suc i) l)"
    using "2.IH" [of i] unfolding l_def i_def by (simp add: Let_def)
  also have "\<dots> = mset (take i l @ l ! i # drop (Suc i) l)" by simp
  also have "\<dots> = mset l" using id_take_nth_drop [OF i] by simp
  finally show ?case unfolding l_def .
qed

lemma set_permute: "set (permute k xs) = set xs"
  using mset_permute [of k xs] by (rule mset_eq_setD)

lemma length_permute: "length (permute k xs) = length xs"
  using mset_permute [of k xs] by (rule mset_eq_length)

lemma take_one_permute:
  assumes "xs \<noteq> []"
  shows "\<exists>x. x \<in> set xs \<and> take 1 (permute k xs) = [x]"
proof -
  from assms have "permute k xs \<noteq> []" using length_permute [of k xs] by auto
  then obtain y ys where y: "permute k xs = y # ys" by (cases "permute k xs") auto
  then have "y \<in> set xs" using set_permute [of k xs] by auto
  with y show ?thesis by simp
qed

lemma vocab_ok_upd:
  "vocab_ok v \<Longrightarrow> vocab_ok (v(t := permute k (v t)))"
  by (simp add: vocab_ok_def mset_permute)

lemma vocab_ok_set: "vocab_ok v \<Longrightarrow> set (v t) = set (vocab0 t)"
  unfolding vocab_ok_def by (metis mset_eq_setD)

lemma vocab0_nonempty: "vocab0 t \<noteq> []"
  by (cases t) (simp_all add: vocab0.simps)

lemma vocab_ok_nonempty: "vocab_ok v \<Longrightarrow> v t \<noteq> []"
  using vocab_ok_set [of v t] vocab0_nonempty [of t] by auto

lemma getRandomModifiers_Arr:
  assumes "getRandomModifiers (Arr t) n w = (ms, w')" and "vocab_ok (vocab w)"
  shows "vocab_ok (vocab w')" and "set ms \<subseteq> set (vocab0 t)"
    and "lastIndex w' = lastIndex w"
    and "n = 1 \<Longrightarrow> \<exists>x. x \<in> set (vocab0 t) \<and> ms = [x]"
proof -
  define k where "k = random w 0"
  from assms(1) have ms: "ms = take n (permute k (vocab w t))"
    and w': "vocab w' = (vocab w)(t := permute k (vocab w t))" "lastIndex w' = lastIndex w"
    by (auto simp: getRandomModifiers_def draw_def Let_def k_def)
  show "vocab_ok (vocab w')" unfolding w' using assms(2) by (rule vocab_ok_upd)
  show "lastIndex w' = lastIndex w" by fact
  have "set ms \<subseteq> set (permute k (vocab w t))" unfolding ms by (rule set_take_subset)
  then show "set ms \<subseteq> set (vocab0 t)"
    using set_permute [of k "vocab w t"] vocab_ok_set [OF assms(2), of t] by simp
  show "\<exists>x. x \<in> set (vocab0 t) \<and> ms = [x]" if "n = 1"
    using take_one_permute [OF vocab_ok_nonempty [OF assms(2)], where k = k and t1 = t] that
      vocab_ok_set [OF assms(2), of t] unfolding ms by auto
qed

lemma buildImperfections_phrases:
  assumes "buildImperfections lvl w = (imps, w')" and "vocab_ok (vocab w)"
  shows "vocab_ok (vocab w')"
    and "\<exists>f g h. f \<in> set (vocab0 IMPERFECTIONS_film) \<and> g \<in> set (vocab0 IMPERFECTIONS_focus)
           \<and> h \<in> set (vocab0 IMPERFECTIONS_surface)
           \<and> imps = (if default_to (JString (str ''medium'')) lvl = JString (str ''high'') then [f, g, h]
                      else if default_to (JString (str ''medium'')) lvl = JString (str ''low'') then [f]
                      else [f, g])"
proof -
  obtain ms1 w1 where 1: "getRandomModifiers (Arr IMPERFECTIONS_film) 1 w = (ms1, w1)"
    by (cases "getRandomModifiers (Arr IMPERFECTIONS_film) 1 w")
  obtain ms2 w2 where 2: "getRandomModifiers (Arr IMPERFECTIONS_focus) 1 w1 = (ms2, w2)"
    by (cases "getRandomModifiers (Arr IMPERFECTIONS_focus) 1 w1")
  obtain ms3 w3 where 3: "getRandomModifiers (Arr IMPERFECTIONS_surface) 1 w2 = (ms3, w3)"
    by (cases "getRandomModifiers (Arr IMPERFECTIONS_surface) 1 w2")
  note a = getRandomModifiers_Arr [OF 1 assms(2)]
  note b = getRandomModifiers_Arr [OF 2 a(1)]
  note c = getRandomModifiers_Arr [OF 3 b(1)]
  from a(4) obtain f where f: "f \<in> set (vocab0 IMPERFECTIONS_film)" "ms1 = [f]" by auto
  from b(4) obtain g where g: "g \<in> set (vocab0 IMPERFECTIONS_focus)" "ms2 = [g]" by auto
  from c(4) obtain h where h: "h \<in> set (vocab0 IMPERFECTIONS_surface)" "ms3 = [h]" by auto
  define d where "d = default_to (JString (str ''medium'')) lvl"
  have hl: "str ''low'' \<noteq> str ''high''" by (simp add: str_simps cu_simps)
  consider (high) "d = JString (str ''high'')" | (low) "d = JString (str ''low'')"
    | (medium) "d \<noteq> JString (str ''high'')" "d \<noteq> JString (str ''low'')" by blast
  then have "vocab_ok (vocab w') \<and> imps = (if d = JString (str ''high'') then [f, g, h]
       else if d = JString (str ''low'') then [f] else [f, g])"
  proof cases
    case high
    with assms(1) 1 2 3 f(2) g(2) h(2) have "imps = [f, g, h]" "w' = w3"
      by (simp_all add: buildImperfections_def Let_def d_def)
    with high c(1) show ?thesis by simp
  next
    case low
    with assms(1) 1 2 3 f(2) g(2) h(2) hl have "imps = [f]" "w' = w1"
      by (simp_all add: buildImperfections_def Let_def d_def)
    with low a(1) hl show ?thesis by simp
  next
    case medium
    with assms(1) 1 2 3 f(2) g(2) h(2) have "imps = [f, g]" "w' = w2"
      by (simp_all add: buildImperfections_def Let_def d_def)
    with medium b(1) show ?thesis by simp
  qed
  then show "vocab_ok (vocab w')"
    and "\<exists>f g h. f \<in> set (vocab0 IMPERFECTIONS_film) \<and> g \<in> set (vocab0 IMPERFECTIONS_focus)
           \<and> h \<in> set (vocab0 IMPERFECTIONS_surface)
           \<and> imps = (if default_to (JString (str ''medium'')) lvl = JString (str ''high'') then [f, g, h]
                      else if default_to (JString (str ''medium'')) lvl = JString (str ''low'') then [f]
                      else [f, g])"
    using f(1) g(1) h(1) unfolding d_def by blast+
qed


lemma pick_one:
  assumes "vocab_ok (vocab w)"
  obtains x w' where "getRandomModifiers (Arr t) 1 w = ([x], w')" "x \<in> set (vocab0 t)"
    "vocab_ok (vocab w')"
proof -
  obtain ms w' where g: "getRandomModifiers (Arr t) 1 w = (ms, w')"
    by (cases "getRandomModifiers (Arr t) 1 w")
  from getRandomModifiers_Arr(4) [OF g assms] obtain x where "x \<in> set (vocab0 t)" "ms = [x]"
    by auto
  with g getRandomModifiers_Arr(1) [OF g assms] that show ?thesis by blast
qed


lemma buildTechnicalModifiers_phrases:
  assumes "buildTechnicalModifiers s m w = (tech, w')" and "vocab_ok (vocab w)"
  shows "vocab_ok (vocab w') \<and> set tech \<subseteq> technical_phrases"
proof -
  define s' where "s' = default_to (JString (str ''film'')) s"
  define m' where "m' = default_to (JString (str ''natural'')) m"
  obtain parts1 w1 where 1: "(if s' = JString (str ''film'') then
              (case getRandomModifiers (Arr CAMERAS_film) 1 w of (ms, w') \<Rightarrow> ([first ms], w'))
            else if s' = JString (str ''digital'') then
              (case getRandomModifiers (Arr CAMERAS_modern) 1 w of (ms, w') \<Rightarrow> ([first ms], w'))
            else ([Some (str ''smartphone photo'')], w)) = (parts1, w1)"
    by (metis surj_pair)
  have p1: "vocab_ok (vocab w1) \<and> set (filter_Boolean parts1) \<subseteq> technical_phrases"
  proof -
    obtain x wa where a: "getRandomModifiers (Arr CAMERAS_film) 1 w = ([x], wa)"
      "x \<in> set (vocab0 CAMERAS_film)" "vocab_ok (vocab wa)" using pick_one [OF assms(2)] by blast
    obtain y wb where b: "getRandomModifiers (Arr CAMERAS_modern) 1 w = ([y], wb)"
      "y \<in> set (vocab0 CAMERAS_modern)" "vocab_ok (vocab wb)" using pick_one [OF assms(2)] by blast
    show ?thesis
      using 1 a b assms(2) by (auto simp: first_def technical_phrases_def split: if_splits)
  qed
  obtain parts2 w2 where 2: "(if s' \<noteq> JString (str ''phone'') then
              (case getRandomModifiers (Arr LENSES) 1 w1 of (ms, w') \<Rightarrow> (parts1 @ [first ms], w'))
            else (parts1, w1)) = (parts2, w2)"
    by (metis surj_pair)
  have fb: "filter_Boolean (xs @ [Some x]) = filter_Boolean xs @ (if x = [] then [] else [x])" for xs x
    by (induction xs rule: filter_Boolean.induct) auto
  have p2: "vocab_ok (vocab w2) \<and> set (filter_Boolean parts2) \<subseteq> technical_phrases"
  proof -
    obtain x wa where a: "getRandomModifiers (Arr LENSES) 1 w1 = ([x], wa)"
      "x \<in> set (vocab0 LENSES)" "vocab_ok (vocab wa)" using pick_one p1 by blast
    show ?thesis
      using 2 a p1 by (auto simp: first_def fb technical_phrases_def split: if_splits)
  qed
  obtain parts3 w3 where 3: "(if m' = JString (str ''moody'') then
              (case getRandomModifiers (Arr LIGHTING_moody) 1 w2 of (ms, w') \<Rightarrow> (parts2 @ [first ms], w'))
            else if m' = JString (str ''harsh'') then
              (case getRandomModifiers (Arr LIGHTING_artificial) 1 w2 of (ms, w') \<Rightarrow> (parts2 @ [first ms], w'))
            else
              (case getRandomModifiers (Arr LIGHTING_natural) 1 w2 of (ms, w') \<Rightarrow> (parts2 @ [first ms], w')))
        = (parts3, w3)"
    by (metis surj_pair)
  have p3: "vocab_ok (vocab w3) \<and> set (filter_Boolean parts3) \<subseteq> technical_phrases"
  proof -
    obtain x wa where a: "getRandomModifiers (Arr LIGHTING_moody) 1 w2 = ([x], wa)"
      "x \<in> set (vocab0 LIGHTING_moody)" "vocab_ok (vocab wa)" using pick_one p2 by blast
    obtain y wb where b: "getRandomModifiers (Arr LIGHTING_artificial) 1 w2 = ([y], wb)"
      "y \<in> set (vocab0 LIGHTING_artificial)" "vocab_ok (vocab wb)" using pick_one p2 by blast
    obtain z wc where c: "getRandomModifiers (Arr LIGHTING_natural) 1 w2 = ([z], wc)"
      "z \<in> set (vocab0 LIGHTING_natural)" "vocab_ok (vocab wc)" using pick_one p2 by blast
    show ?thesis
      using 3 a b c p2 by (auto simp: first_def fb technical_phrases_def split: if_splits)
  qed
  have "buildTechnicalModifiers s m w = (filter_Boolean parts3, w3)"
    unfolding buildTechnicalModifiers_def Let_def
    using 1 2 3 unfolding s'_def m'_def by simp
  with assms(1) p3 show ?thesis by simp
qed

subsection \<open>What the rewriting steps leave alone\<close>

lemma build_replacement_state:
  assumes "\<And>m st y st'. f m st = (y, st') \<Longrightarrow> P st \<Longrightarrow> P st'" and "P st"
  shows "P (snd (build_replacement s f ms nx acc st))"
  using assms(2)
proof (induction ms arbitrary: nx acc st)
  case Nil
  then show ?case by simp
next
  case (Cons m ms)
  obtain j e where m: "m = (j, e)" by (cases m)
  obtain y st' where f: "f (slice s j e) st = (y, st')" by (cases "f (slice s j e) st")
  from assms(1) [OF f Cons.prems] have "P st'" .
  from Cons.IH [OF this] show ?case using m f by simp
qed

lemma random_index_vocab:
  "random_index n w = (i, w') \<Longrightarrow> vocab w' = vocab w \<and> lastIndex w' = lastIndex w"
  by (auto simp: random_index_def draw_def)

lemma enhanceSubject_vocab:
  assumes "enhanceSubject p w = (q, w')"
  shows "vocab w' = vocab w"
proof -
  have a: "vocab st' = v" if "enhance_woman_man m st = (y, st')" "vocab st = v" for m st y st' v
    using that
    by (auto simp: enhance_woman_man_def Let_def split: prod.splits dest!: random_index_vocab)
  have b: "vocab st' = v" if "enhance_person m st = (y, st')" "vocab st = v" for m st y st' v
    using that
    by (auto simp: enhance_person_def split: prod.splits dest!: random_index_vocab)
  obtain e w1 where 1: "string_replace bare_woman_man enhance_woman_man p w = (e, w1)"
    by (cases "string_replace bare_woman_man enhance_woman_man p w")
  have "vocab (snd (string_replace bare_woman_man enhance_woman_man p w)) = vocab w"
    unfolding string_replace_def
    by (rule build_replacement_state [where P = "\<lambda>st. vocab st = vocab w"]) (auto intro: a)
  with 1 have v1: "vocab w1 = vocab w" by simp
  have "vocab (snd (string_replace bare_person enhance_person e w1)) = vocab w1"
    unfolding string_replace_def
    by (rule build_replacement_state [where P = "\<lambda>st. vocab st = vocab w1"]) (auto intro: b)
  with assms 1 v1 show ?thesis by (simp add: enhanceSubject_def)
qed

lemma enhance_locations_vocab:
  "enhance_locations fams p w = (q, w') \<Longrightarrow> vocab w' = vocab w"
proof (induction fams p w rule: enhance_locations.induct)
  case (1 enhanced w)
  then show ?case by simp
next
  case (2 generic specifics rest enhanced w)
  then show ?case
    by (auto split: if_splits prod.splits dest!: random_index_vocab)
qed

lemma enhanceLocation_vocab:
  "enhanceLocation p w = (q, w') \<Longrightarrow> vocab w' = vocab w"
  unfolding enhanceLocation_def by (rule enhance_locations_vocab)

subsection \<open>The imperfection phrases\<close>








lemma transformPrompt_modifiers:
  assumes "vocab_ok (vocab w)"
  shows "\<exists>r w' tech imps cmp hum f g h.
       transformPrompt p opts w = (Inr r, w')
     \<and> vocab_ok (vocab w')
     \<and> modifiersAdded r = filter (\<lambda>x. x \<noteq> []) (tech @ imps @ cmp @ hum)
     \<and> set tech \<subseteq> technical_phrases
     \<and> f \<in> set (vocab0 IMPERFECTIONS_film) \<and> g \<in> set (vocab0 IMPERFECTIONS_focus)
     \<and> h \<in> set (vocab0 IMPERFECTIONS_surface)
     \<and> imps = (if default_to (JString (str ''medium'')) (imperfectionLevel opts) = JString (str ''high'')
                 then [f, g, h]
                else if default_to (JString (str ''medium'')) (imperfectionLevel opts) = JString (str ''low'')
                 then [f]
                else [f, g])
     \<and> set cmp \<subseteq> set (vocab0 COMPOSITION_natural)
     \<and> set hum \<subseteq> set (vocab0 HUMAN_DETAILS)"
proof -
  obtain a li1 subj w2 loc w3 tech w4 imps w5 cmp w6 hum w7 n li8 where
    a: "analyze p w = (Inr a, w\<lparr>lastIndex := li1\<rparr>)"
    and s: "enhanceSubject (if truthy (default_to (JBoolean False) (preserveOriginal opts)) then p
          else cleanPrompt p) (w\<lparr>lastIndex := li1\<rparr>) = (subj, w2)"
    and l: "enhanceLocation subj w2 = (loc, w3)"
    and t: "buildTechnicalModifiers (default_to (JString (str ''film'')) (style opts))
        (default_to (JString (str ''natural'')) (mood opts)) w3 = (tech, w4)"
    and i: "buildImperfections (default_to (JString (str ''medium'')) (imperfectionLevel opts)) w4 = (imps, w5)"
    and c: "getRandomModifiers (Arr COMPOSITION_natural) 1 w5 = (cmp, w6)"
    and h: "(if hasHumanSubject p then getRandomModifiers (Arr HUMAN_DETAILS) 2 w6 else ([], w6)) = (hum, w7)"
    and n: "analyze (join (str '', '') (loc # filter (\<lambda>x. x \<noteq> []) (tech @ imps @ cmp @ hum))) w7
        = (Inr n, w7\<lparr>lastIndex := li8\<rparr>)"
    and r: "transformPrompt p opts w =
        (Inr \<lparr>original = p,
              transformed = join (str '', '') (loc # filter (\<lambda>x. x \<noteq> []) (tech @ imps @ cmp @ hum)),
              originalScore = score a,
              newScore = score n,
              improvement = score a - score n,
              issuesFixed = map name (issues a),
              modifiersAdded = filter (\<lambda>x. x \<noteq> []) (tech @ imps @ cmp @ hum)\<rparr>,
         w7\<lparr>lastIndex := li8\<rparr>)"
    by (rule transformPrompt_steps [of p w opts])
  have v3: "vocab_ok (vocab w3)"
    using enhanceSubject_vocab [OF s] enhanceLocation_vocab [OF l] assms by simp
  note T = buildTechnicalModifiers_phrases [OF t v3]
  from T have v4: "vocab_ok (vocab w4)" by simp
  note I = buildImperfections_phrases [OF i v4]
  note C = getRandomModifiers_Arr [OF c I(1)]
  have H: "vocab_ok (vocab w7) \<and> set hum \<subseteq> set (vocab0 HUMAN_DETAILS)"
  proof (cases "hasHumanSubject p")
    case True
    with h have "getRandomModifiers (Arr HUMAN_DETAILS) 2 w6 = (hum, w7)" by simp
    from getRandomModifiers_Arr(1,2) [OF this C(1)] show ?thesis by simp
  next
    case False
    with h C(1) show ?thesis by auto
  qed
  from I(2) obtain f g h' where fgh: "f \<in> set (vocab0 IMPERFECTIONS_film)"
    "g \<in> set (vocab0 IMPERFECTIONS_focus)" "h' \<in> set (vocab0 IMPERFECTIONS_surface)"
    "imps = (if default_to (JString (str ''medium''))
              (default_to (JString (str ''medium'')) (imperfectionLevel opts)) = JString (str ''high'')
                 then [f, g, h']
                else if default_to (JString (str ''medium''))
              (default_to (JString (str ''medium'')) (imperfectionLevel opts)) = JString (str ''low'')
                 then [f]
                else [f, g])"
    by blast
  have dd: "default_to d (default_to d v) = default_to d v" for d v
    by (simp add: default_to_def)
  show ?thesis
    apply (rule exI [of _ "\<lparr>original = p,
              transformed = join (str '', '') (loc # filter (\<lambda>x. x \<noteq> []) (tech @ imps @ cmp @ hum)),
              originalScore = score a,
              newScore = score n,
              improvement = score a - score n,
              issuesFixed = map name (issues a),
              modifiersAdded = filter (\<lambda>x. x \<noteq> []) (tech @ imps @ cmp @ hum)\<rparr>"])
    apply (rule exI [of _ "w7\<lparr>lastIndex := li8\<rparr>"])
    apply (rule exI [of _ tech], rule exI [of _ imps], rule exI [of _ cmp], rule exI [of _ hum])
    apply (rule exI [of _ f], rule exI [of _ g], rule exI [of _ h'])
    using r T H C(2) fgh dd by simp
qed




subsection \<open>Options outside their choices\<close>

lemma technical_mood_fallback:
  assumes "m \<noteq> JString (str ''moody'')" and "m \<noteq> JString (str ''harsh'')"
  shows "buildTechnicalModifiers s (default_to (JString (str ''natural'')) m) w
    = buildTechnicalModifiers s (JString (str ''natural'')) w"
proof -
  have "str ''natural'' \<noteq> str ''moody''" "str ''natural'' \<noteq> str ''harsh''"
    by (simp_all add: str_simps cu_simps)
  with assms show ?thesis
    by (simp add: buildTechnicalModifiers_def default_to_def)
qed

lemma imperfections_level_fallback:
  assumes "l \<noteq> JString (str ''high'')" and "l \<noteq> JString (str ''low'')"
  shows "buildImperfections (default_to (JString (str ''medium'')) l) w
    = buildImperfections (JString (str ''medium'')) w"
proof -
  have "str ''medium'' \<noteq> str ''high''" "str ''medium'' \<noteq> str ''low''"
    by (simp_all add: str_simps cu_simps)
  with assms show ?thesis
    by (simp add: buildImperfections_def default_to_def)
qed

lemma default_to_idem: "default_to d d = d"
  by (simp add: default_to_def)

text \<open>
  Claim C4, as the code has it.  \<open>transformPrompt\<close> returns a result for every prompt
  and every options object; a mood outside \<open>natural\<close>, \<open>moody\<close>, \<open>harsh\<close> behaves as
  \<open>natural\<close>, and an imperfection level outside \<open>low\<close>, \<open>medium\<close>, \<open>high\<close> behaves
  as \<open>medium\<close>.  (Nothing is said of a style outside its choices.)
\<close>

theorem transformPrompt_invalid_options:
  "(\<exists>r w'. transformPrompt p opts w = (Inr r, w'))
   \<and> (mood opts \<notin> {JString (str ''natural''), JString (str ''moody''), JString (str ''harsh'')}
        \<longrightarrow> transformPrompt p opts w = transformPrompt p (opts\<lparr>mood := JString (str ''natural'')\<rparr>) w)
   \<and> (imperfectionLevel opts \<notin> {JString (str ''low''), JString (str ''medium''), JString (str ''high'')}
        \<longrightarrow> transformPrompt p opts w
          = transformPrompt p (opts\<lparr>imperfectionLevel := JString (str ''medium'')\<rparr>) w)"
proof (intro conjI impI)
  show "\<exists>r w'. transformPrompt p opts w = (Inr r, w')"
    using transformPrompt_steps [of p w opts] by metis
next
  assume "mood opts \<notin> {JString (str ''natural''), JString (str ''moody''), JString (str ''harsh'')}"
  then have "mood opts \<noteq> JString (str ''moody'')" "mood opts \<noteq> JString (str ''harsh'')"
    by auto
  note fb = technical_mood_fallback [OF this]
  show "transformPrompt p opts w = transformPrompt p (opts\<lparr>mood := JString (str ''natural'')\<rparr>) w"
    by (simp add: transformPrompt_def default_to_idem fb cong del: sum.case_cong_weak)
next
  assume "imperfectionLevel opts \<notin> {JString (str ''low''), JString (str ''medium''), JString (str ''high'')}"
  then have "imperfectionLevel opts \<noteq> JString (str ''high'')" "imperfectionLevel opts \<noteq> JString (str ''low'')"
    by auto
  note fb = imperfections_level_fallback [OF this]
  show "transformPrompt p opts w
      = transformPrompt p (opts\<lparr>imperfectionLevel := JString (str ''medium'')\<rparr>) w"
    by (simp add: transformPrompt_def default_to_idem fb cong del: sum.case_cong_weak)
qed

theorem transformPrompt_invalid_options_witness:
  "mood invalid_options \<notin> {JString (str ''natural''), JString (str ''moody''), JString (str ''harsh'')}
   \<and> imperfectionLevel invalid_options
        \<notin> {JString (str ''low''), JString (str ''medium''), JString (str ''high'')}
   \<and> (\<exists>r w'. transformPrompt (str ''x'') invalid_options (fresh_world (\<lambda>_. 0)) = (Inr r, w'))
   \<and> transformPrompt (str ''x'') invalid_options (fresh_world (\<lambda>_. 0))
      = transformPrompt (str ''x'') (invalid_options\<lparr>mood := JString (str ''natural'')\<rparr>)
          (fresh_world (\<lambda>_. 0))
   \<and> transformPrompt (str ''x'') invalid_options (fresh_world (\<lambda>_. 0))
      = transformPrompt (str ''x'') (invalid_options\<lparr>imperfectionLevel := JString (str ''medium'')\<rparr>)
          (fresh_world (\<lambda>_. 0))"
proof -
  have m: "mood invalid_options
      \<notin> {JString (str ''natural''), JString (str ''moody''), JString (str ''harsh'')}"
    by (simp add: invalid_options_def str_simps cu_simps)
  have l: "imperfectionLevel invalid_options
      \<notin> {JString (str ''low''), JString (str ''medium''), JString (str ''high'')}"
    by (simp add: invalid_options_def str_simps cu_simps)
  from m l transformPrompt_invalid_options [of "str ''x''" invalid_options "fresh_world (\<lambda>_. 0)"]
  show ?thesis by blast
qed

text \<open>
  The claim as stated fails for the style: the style \<open>foo\<close> does not behave as
  \<open>film\<close>.  Its camera phrase is the literal \<open>smartphone photo\<close>, where \<open>film\<close>
  draws a phrase of the film cameras.
\<close>

theorem transformPrompt_invalid_style_counterexample:
  "map_sum id modifiersAdded (fst (transformPrompt (str ''x'') (no_options\<lparr>style := JString (str ''foo'')\<rparr>)
       (fresh_world (\<lambda>_. 0))))
     = Inr [str ''smartphone photo'', str ''35mm lens'', str ''golden hour light'', str ''film grain'',
            str ''slight motion blur'', str ''off-center composition'']
   \<and> map_sum id modifiersAdded (fst (transformPrompt (str ''x'') (no_options\<lparr>style := JString (str ''film'')\<rparr>)
       (fresh_world (\<lambda>_. 0))))
     = Inr [str ''shot on 35mm film'', str ''35mm lens'', str ''golden hour light'', str ''film grain'',
            str ''slight motion blur'', str ''off-center composition'']"
proof
  let ?w = "fresh_world (\<lambda>_. 0)"
  let ?o = "no_options\<lparr>style := JString (str ''foo'')\<rparr>"
  have b: "str ''x'' = (if truthy (default_to (JBoolean False) (preserveOriginal ?o)) then str ''x''
       else cleanPrompt (str ''x''))"
    by (simp add: clean_x no_options_def default_to_def)
  obtain li1 r tech w4 imps w5 cmp w6 li8 where
    t: "buildTechnicalModifiers (default_to (JString (str ''film'')) (style ?o))
        (default_to (JString (str ''natural'')) (mood ?o)) (?w\<lparr>lastIndex := li1\<rparr>) = (tech, w4)"
    and i: "buildImperfections (default_to (JString (str ''medium'')) (imperfectionLevel ?o)) w4 = (imps, w5)"
    and c: "getRandomModifiers (Arr COMPOSITION_natural) 1 w5 = (cmp, w6)"
    and r: "transformPrompt (str ''x'') ?o ?w = (Inr r, w6\<lparr>lastIndex := li8\<rparr>)"
    and m: "modifiersAdded r = filter (\<lambda>x. x \<noteq> []) (tech @ imps @ cmp)"
    by (rule transformPrompt_plain [OF b subj_x loc_x human_x, of ?w])
  from t have t': "tech = [str ''smartphone photo'', str ''35mm lens'', str ''golden hour light'']
      \<and> random w4 = (\<lambda>_. 0) \<and> vocab w4 IMPERFECTIONS_film = vocab0 IMPERFECTIONS_film
      \<and> vocab w4 IMPERFECTIONS_focus = vocab0 IMPERFECTIONS_focus
      \<and> vocab w4 COMPOSITION_natural = vocab0 COMPOSITION_natural"
    by (clarsimp simp add: eval_pick cong: prod.case_cong_weak let_weak_cong)
  with i have i': "imps = [str ''film grain'', str ''slight motion blur'']
      \<and> random w5 = (\<lambda>_. 0) \<and> vocab w5 COMPOSITION_natural = vocab0 COMPOSITION_natural"
    by (clarsimp simp add: eval_pick cong: prod.case_cong_weak let_weak_cong)
  with c have c': "cmp = [str ''off-center composition'']"
    by (clarsimp simp add: eval_pick cong: prod.case_cong_weak let_weak_cong)
  show "map_sum id modifiersAdded (fst (transformPrompt (str ''x'') ?o ?w))
     = Inr [str ''smartphone photo'', str ''35mm lens'', str ''golden hour light'', str ''film grain'',
            str ''slight motion blur'', str ''off-center composition'']"
    unfolding r using m t' i' c' by (simp add: str_simps cu_simps)
next
  let ?w = "fresh_world (\<lambda>_. 0)"
  let ?o = "no_options\<lparr>style := JString (str ''film'')\<rparr>"
  have b: "str ''x'' = (if truthy (default_to (JBoolean False) (preserveOriginal ?o)) then str ''x''
       else cleanPrompt (str ''x''))"
    by (simp add: clean_x no_options_def default_to_def)
  obtain li1 r tech w4 imps w5 cmp w6 li8 where
    t: "buildTechnicalModifiers (default_to (JString (str ''film'')) (style ?o))
        (default_to (JString (str ''natural'')) (mood ?o)) (?w\<lparr>lastIndex := li1\<rparr>) = (tech, w4)"
    and i: "buildImperfections (default_to (JString (str ''medium'')) (imperfectionLevel ?o)) w4 = (imps, w5)"
    and c: "getRandomModifiers (Arr COMPOSITION_natural) 1 w5 = (cmp, w6)"
    and r: "transformPrompt (str ''x'') ?o ?w = (Inr r, w6\<lparr>lastIndex := li8\<rparr>)"
    and m: "modifiersAdded r = filter (\<lambda>x. x \<noteq> []) (tech @ imps @ cmp)"
    by (rule transformPrompt_plain [OF b subj_x loc_x human_x, of ?w])
  from t have t': "tech = [str ''shot on 35mm film'', str ''35mm lens'', str ''golden hour light'']
      \<and> random w4 = (\<lambda>_. 0) \<and> vocab w4 IMPERFECTIONS_film = vocab0 IMPERFECTIONS_film
      \<and> vocab w4 IMPERFECTIONS_focus = vocab0 IMPERFECTIONS_focus
      \<and> vocab w4 COMPOSITION_natural = vocab0 COMPOSITION_natural"
    by (clarsimp simp add: eval_pick cong: prod.case_cong_weak let_weak_cong)
  with i have i': "imps = [str ''film grain'', str ''slight motion blur'']
      \<and> random w5 = (\<lambda>_. 0) \<and> vocab w5 COMPOSITION_natural = vocab0 COMPOSITION_natural"
    by (clarsimp simp add: eval_pick cong: prod.case_cong_weak let_weak_cong)
  with c have c': "cmp = [str ''off-center composition'']"
    by (clarsimp simp add: eval_pick cong: prod.case_cong_weak let_weak_cong)
  show "map_sum id modifiersAdded (fst (transformPrompt (str ''x'') ?o ?w))
     = Inr [str ''shot on 35mm film'', str ''35mm lens'', str ''golden hour light'', str ''film grain'',
            str ''slight motion blur'', str ''off-center composition'']"
    unfolding r using m t' i' c' by (simp add: str_simps cu_simps)
qed

subsection \<open>The vocabulary is sorted in place\<close>

text \<open>
  Claim C6.  \<open>getRandomModifiers\<close> sorts the array it is given, and \<open>transformPrompt\<close>
  gives it the arrays of the vocabulary themselves.  With an oracle whose choice puts the
  second film camera first, the table \<open>CAMERAS.film\<close> starts with
  \<open>shot on 35mm film\<close>, \<open>shot on Kodak Portra 400\<close> before the call and with
  \<open>shot on Kodak Portra 400\<close>, \<open>shot on 35mm film\<close> after it.
\<close>

theorem transformPrompt_mutates_vocabulary:
  "take 2 (vocab (fresh_world (\<lambda>_. 1)) CAMERAS_film)
     = [str ''shot on 35mm film'', str ''shot on Kodak Portra 400'']
   \<and> take 2 (vocab (snd (transformPrompt (str ''x'') no_options (fresh_world (\<lambda>_. 1)))) CAMERAS_film)
     = [str ''shot on Kodak Portra 400'', str ''shot on 35mm film'']"
proof
  show "take 2 (vocab (fresh_world (\<lambda>_. 1)) CAMERAS_film)
     = [str ''shot on 35mm film'', str ''shot on Kodak Portra 400'']"
    by (simp add: fresh_world_def vocab0.simps)
next
  let ?w = "fresh_world (\<lambda>_. 1)"
  let ?o = "no_options"
  have b: "str ''x'' = (if truthy (default_to (JBoolean False) (preserveOriginal ?o)) then str ''x''
       else cleanPrompt (str ''x''))"
    by (simp add: clean_x no_options_def default_to_def)
  obtain li1 r tech w4 imps w5 cmp w6 li8 where
    t: "buildTechnicalModifiers (default_to (JString (str ''film'')) (style ?o))
        (default_to (JString (str ''natural'')) (mood ?o)) (?w\<lparr>lastIndex := li1\<rparr>) = (tech, w4)"
    and i: "buildImperfections (default_to (JString (str ''medium'')) (imperfectionLevel ?o)) w4 = (imps, w5)"
    and c: "getRandomModifiers (Arr COMPOSITION_natural) 1 w5 = (cmp, w6)"
    and r: "transformPrompt (str ''x'') ?o ?w = (Inr r, w6\<lparr>lastIndex := li8\<rparr>)"
    by (rule transformPrompt_plain [OF b subj_x loc_x human_x, of ?w])
  have keep: "vocab w' CAMERAS_film = vocab w CAMERAS_film"
    if "getRandomModifiers (Arr t) n w = (ms, w')" "t \<noteq> CAMERAS_film" for t n w ms w'
    using that by (auto simp: getRandomModifiers_def draw_def Let_def)
  from t have t': "take 2 (vocab w4 CAMERAS_film) = [str ''shot on Kodak Portra 400'', str ''shot on 35mm film'']"
    by (clarsimp simp add: eval_pick cong: prod.case_cong_weak let_weak_cong)
  from i have i': "vocab w5 CAMERAS_film = vocab w4 CAMERAS_film"
    by (auto simp: buildImperfections_def Let_def split: prod.splits if_splits dest!: keep)
  from c have c': "vocab w6 CAMERAS_film = vocab w5 CAMERAS_film"
    by (auto dest!: keep)
  show "take 2 (vocab (snd (transformPrompt (str ''x'') ?o ?w)) CAMERAS_film)
     = [str ''shot on Kodak Portra 400'', str ''shot on 35mm film'']"
    unfolding r using t' i' c' by simp
qed

subsection \<open>Blank prompts\<close>

lemma space_not_word: "is_space u \<Longrightarrow> \<not> is_word u"
  by (auto simp: is_space_def is_word_def)

lemma blank_no_word: "whitespace_only s \<Longrightarrow> \<not> word_at s i"
  by (auto simp: whitespace_only_def word_at_def list_all_length space_not_word)

lemma blank_no_boundary: "whitespace_only s \<Longrightarrow> \<not> boundary s i"
  by (simp add: boundary_def blank_no_word)

lemma blank_no_match:
  assumes "whitespace_only s" and "pattern re = Seq WordB r"
  shows "\<not> matches_at re s i"
  using assms by (simp add: matches_at_def blank_no_boundary)

lemma find_match_None:
  assumes "\<And>i. \<not> matches_at re s i"
  shows "find_match re s n = None"
proof -
  have "List.find (matches_at re s) [n ..< Suc (length s)] = None"
    using assms by (simp add: find_None_iff del: upt_Suc)
  then show ?thesis by (simp add: find_match_def del: upt_Suc)
qed

lemma exec_all_None:
  "(\<And>i. \<not> matches_at re s i) \<Longrightarrow> exec_all re s n = []"
  by (subst exec_all.simps) (simp add: find_match_None)

lemma string_replace_None:
  "(\<And>i. \<not> matches_at re s i) \<Longrightarrow> string_replace re f s st = (s, st)"
  by (simp add: string_replace_def exec_all_None)

lemma replace_str_None:
  "(\<And>i. \<not> matches_at re s i) \<Longrightarrow> replace_str re y s = s"
  by (simp add: replace_str_def string_replace_None)

lemma regexp_test_None:
  "(\<And>i. \<not> matches_at re s i) \<Longrightarrow> fst (regexp_test re n s) = False"
  by (simp add: regexp_test_def find_match_None)

lemma word_patterns:
  "\<exists>r. pattern strip_resolution = Seq WordB r"
  "\<exists>r. pattern strip_platform = Seq WordB r"
  "\<exists>r. pattern strip_realistic = Seq WordB r"
  "\<exists>r. pattern strip_beauty = Seq WordB r"
  "\<exists>r. pattern strip_lighting = Seq WordB r"
  "\<exists>r. pattern bare_woman_man = Seq WordB r"
  "\<exists>r. pattern bare_person = Seq WordB r"
  "\<exists>r. pattern (location_regex g) = Seq WordB r"
  "\<exists>r. pattern human_words = Seq WordB r"
  by (simp_all add: strip_resolution_def strip_platform_def strip_realistic_def strip_beauty_def
      strip_lighting_def strip_tail_def bare_woman_man_def bare_person_def location_regex_def
      human_words_def rx_gi_def rx_i_def)

lemma blank_double_comma:
  assumes "whitespace_only s"
  shows "\<not> matches_at double_comma s i"
proof -
  have "\<not> lit_match False [44] (drop i s)"
  proof (cases "drop i s")
    case Nil
    then show ?thesis by simp
  next
    case (Cons x xs)
    then have "x \<in> set s" by (metis in_set_dropD list.set_intros(1))
    with assms have "is_space x" by (simp add: whitespace_only_def list_all_iff)
    then have "x \<noteq> 44" by (auto simp: is_space_def)
    with Cons show ?thesis by (simp add: char_eq_def)
  qed
  then show ?thesis
    by (simp add: matches_at_def double_comma_def rx_g_def lit_def str_simps cu_simps)
qed

lemma blank_spaces:
  assumes "whitespace_only s" and "s \<noteq> []"
  shows "replace_str spaces (str '' '') s = str '' ''"
proof -
  define n where "n = length s"
  have n: "0 < n" using assms(2) by (simp add: n_def)
  have all: "in_class False [CSpace] x" if "x \<in> set s" for x
    using that assms(1) by (simp add: in_class_def whitespace_only_def list_all_iff)
  have tw: "takeWhile (in_class False [CSpace]) s = s"
    by (rule takeWhile_eq_all_conv [THEN iffD2]) (use all in blast)
  have rl: "run_length False [CSpace] (drop 0 s) = n"
    unfolding run_length_def n_def drop_0 tw ..
  have r0: "rmatch False (Plus [CSpace]) s 0 = map (\<lambda>k. 0 + k) (rev [1 ..< Suc n])"
    unfolding rmatch.simps rl ..
  have hd0: "hd (rmatch False (Plus [CSpace]) s 0) = n" "rmatch False (Plus [CSpace]) s 0 \<noteq> []"
    using n unfolding r0 by simp_all
  have f0: "find_match spaces s 0 = Some (0, n)"
    using hd0 by (simp add: find_match_def matches_at_def spaces_def rx_g_def upt_conv_Cons
        del: upt_Suc)
  have rn: "rmatch False (Plus [CSpace]) s n = []"
    by (simp add: n_def run_length_def)
  have fn: "find_match spaces s n = None"
    using rn by (simp add: find_match_def matches_at_def spaces_def rx_g_def n_def)
  have en: "exec_all spaces s n = []"
    by (subst exec_all.simps) (simp add: fn [unfolded n_def] n_def)
  have e0: "exec_all spaces s 0 = [(0, n)]"
    using n by (subst exec_all.simps) (simp add: f0 en)
  show ?thesis
    by (simp add: replace_str_def string_replace_def e0 constantly_def slice_def n_def)
qed

lemma spaces_empty: "replace_str spaces (str '' '') [] = []"
  by (simp add: eval_replace eval_match spaces_def cong: prod.case_cong_weak let_weak_cong)

lemma outer_separators_blank:
  "replace_str outer_separators [] [] = []"
  "replace_str outer_separators [] (str '' '') = []"
  by (simp_all add: eval_replace eval_match outer_separators_def
      cong: prod.case_cong_weak let_weak_cong)

lemma cleanPrompt_blank:
  assumes "whitespace_only s"
  shows "cleanPrompt s = []"
proof -
  have w: "\<not> matches_at re s i" if "\<exists>r. pattern re = Seq WordB r" for re i
    using that blank_no_match [OF assms] by blast
  have c: "\<not> matches_at double_comma s i" for i
    using blank_double_comma [OF assms] .
  have "cleanPrompt s = replace_str outer_separators [] (replace_str spaces (str '' '') s)"
    unfolding cleanPrompt_def Let_def
    by (simp add: replace_str_None w c word_patterns)
  also have "\<dots> = []"
  proof (cases "s = []")
    case True
    then show ?thesis by (simp add: spaces_empty outer_separators_blank)
  next
    case False
    then show ?thesis by (simp add: blank_spaces [OF assms] outer_separators_blank)
  qed
  finally show ?thesis .
qed

lemma enhanceSubject_blank:
  assumes "whitespace_only s"
  shows "enhanceSubject s w = (s, w)"
proof -
  have w: "\<not> matches_at re s i" if "\<exists>r. pattern re = Seq WordB r" for re i
    using that blank_no_match [OF assms] by blast
  show ?thesis
    by (simp add: enhanceSubject_def string_replace_None w word_patterns)
qed

lemma enhance_locations_blank:
  assumes "whitespace_only s"
  shows "enhance_locations fams s w = (s, w)"
proof (induction fams)
  case Nil
  show ?case by simp
next
  case (Cons fam fams)
  obtain g sp where fam: "fam = (g, sp)" by (cases fam)
  have "\<not> matches_at (location_regex g) s i" for i
    using blank_no_match [OF assms] word_patterns(8) by blast
  then have "fst (regexp_test (location_regex g) 0 s) = False"
    by (rule regexp_test_None)
  with Cons fam show ?case by simp
qed

lemma enhanceLocation_blank:
  "whitespace_only s \<Longrightarrow> enhanceLocation s w = (s, w)"
  by (simp add: enhanceLocation_def enhance_locations_blank)

lemma hasHumanSubject_blank:
  assumes "whitespace_only s"
  shows "\<not> hasHumanSubject s"
proof -
  have "\<not> matches_at human_words s i" for i
    using blank_no_match [OF assms] word_patterns(9) by blast
  then show ?thesis
    unfolding hasHumanSubject_def by (simp add: regexp_test_None)
qed

lemma truthy_default: "truthy (default_to (JBoolean False) v) = truthy v"
  by (cases v) (simp_all add: default_to_def)

text \<open>
  Claim C5, as the code has it.  For every prompt that is empty or consists of white
  space, and every options object, \<open>transformPrompt\<close> returns a result and raises no
  error.  The transformed text is the modifier phrases alone, joined by commas after an
  empty base text (after the untouched white space when \<open>preserveOriginal\<close> is set).
\<close>

theorem transformPrompt_blank:
  assumes "whitespace_only p"
  shows "\<exists>r w'. transformPrompt p opts w = (Inr r, w')
    \<and> transformed r = join (str '', '')
         ((if truthy (preserveOriginal opts) then p else []) # modifiersAdded r)"
proof -
  define base where "base = (if truthy (preserveOriginal opts) then p else [])"
  have b: "base = (if truthy (default_to (JBoolean False) (preserveOriginal opts)) then p
       else cleanPrompt p)"
    by (simp add: base_def truthy_default cleanPrompt_blank [OF assms])
  have wb: "whitespace_only base"
    using assms by (simp add: base_def whitespace_only_def)
  obtain li1 r tech w4 imps w5 cmp w6 li8 where
    "transformPrompt p opts w = (Inr r, w6\<lparr>lastIndex := li8\<rparr>)"
    "transformed r = join (str '', '') (base # modifiersAdded r)"
    using transformPrompt_plain [OF b enhanceSubject_blank [OF wb] enhanceLocation_blank [OF wb]
        hasHumanSubject_blank [OF assms], of w]
    by metis
  then show ?thesis unfolding base_def by blast
qed

theorem transformPrompt_blank_witness:
  "whitespace_only (str ''  '')
   \<and> (\<exists>r w'. transformPrompt (str ''  '') no_options (fresh_world (\<lambda>_. 0)) = (Inr r, w')
        \<and> transformed r = join (str '', '') ([] # modifiersAdded r))"
proof -
  have w: "whitespace_only (str ''  '')"
    by (simp add: whitespace_only_def str_simps cu_simps is_space_def)
  have "\<not> truthy (preserveOriginal no_options)"
    by (simp add: no_options_def)
  with transformPrompt_blank [OF w, of no_options "fresh_world (\<lambda>_. 0)"] w
  show ?thesis by simp
qed

text \<open>The claim as stated fails: the empty prompt gets a result, made of modifiers only.\<close>

theorem transformPrompt_empty_counterexample:
  "map_sum id transformed (fst (transformPrompt [] no_options (fresh_world (\<lambda>_. 0))))
     = Inr (str '', shot on 35mm film, 35mm lens, golden hour light, film grain, slight motion blur, off-center composition'')"
proof -
  let ?w = "fresh_world (\<lambda>_. 0)"
  let ?o = "no_options"
  have e: "whitespace_only []" by (simp add: whitespace_only_def)
  have b: "[] = (if truthy (default_to (JBoolean False) (preserveOriginal ?o)) then []
       else cleanPrompt [])"
    by (simp add: cleanPrompt_blank [OF e])
  obtain li1 r tech w4 imps w5 cmp w6 li8 where
    t: "buildTechnicalModifiers (default_to (JString (str ''film'')) (style ?o))
        (default_to (JString (str ''natural'')) (mood ?o)) (?w\<lparr>lastIndex := li1\<rparr>) = (tech, w4)"
    and i: "buildImperfections (default_to (JString (str ''medium'')) (imperfectionLevel ?o)) w4 = (imps, w5)"
    and c: "getRandomModifiers (Arr COMPOSITION_natural) 1 w5 = (cmp, w6)"
    and r: "transformPrompt [] ?o ?w = (Inr r, w6\<lparr>lastIndex := li8\<rparr>)"
    and m: "modifiersAdded r = filter (\<lambda>x. x \<noteq> []) (tech @ imps @ cmp)"
    and f: "transformed r = join (str '', '') ([] # modifiersAdded r)"
    by (rule transformPrompt_plain [OF b enhanceSubject_blank [OF e] enhanceLocation_blank [OF e]
          hasHumanSubject_blank [OF e], of ?w])
  from t have t': "tech = [str ''shot on 35mm film'', str ''35mm lens'', str ''golden hour light'']
      \<and> random w4 = (\<lambda>_. 0) \<and> vocab w4 IMPERFECTIONS_film = vocab0 IMPERFECTIONS_film
      \<and> vocab w4 IMPERFECTIONS_focus = vocab0 IMPERFECTIONS_focus
      \<and> vocab w4 COMPOSITION_natural = vocab0 COMPOSITION_natural"
    by (clarsimp simp add: eval_pick cong: prod.case_cong_weak let_weak_cong)
  with i have i': "imps = [str ''film grain'', str ''slight motion blur'']
      \<and> random w5 = (\<lambda>_. 0) \<and> vocab w5 COMPOSITION_natural = vocab0 COMPOSITION_natural"
    by (clarsimp simp add: eval_pick cong: prod.case_cong_weak let_weak_cong)
  with c have c': "cmp = [str ''off-center composition'']"
    by (clarsimp simp add: eval_pick cong: prod.case_cong_weak let_weak_cong)
  show ?thesis
    unfolding r using f m t' i' c' by (simp add: str_simps cu_simps)
qed
section \<open>Stripping of resolution tokens\<close>

subsection \<open>Tokens and concatenation\<close>

lemma word_56: "is_word 56" and word_k: "k = 107 \<or> k = 75 \<Longrightarrow> is_word k"
  by (auto simp: is_word_def)

lemma ends_clear_append:
  "ends_clear (A @ B) \<longleftrightarrow> (if B = [] then ends_clear A else ends_clear B)"
  by (simp add: ends_clear_def)

lemma starts_clear_append:
  "starts_clear (A @ B) \<longleftrightarrow> (if A = [] then starts_clear B else starts_clear A)"
  by (simp add: starts_clear_def)

lemma tok8kI:
  "s = A @ 56 # k # B \<Longrightarrow> k = 107 \<or> k = 75 \<Longrightarrow> ends_clear A \<Longrightarrow> starts_clear B \<Longrightarrow> tok8k s"
  unfolding tok8k_def by blast

lemma ends_clear_Nil [simp]: "ends_clear []" and starts_clear_Nil [simp]: "starts_clear []"
  by (simp_all add: ends_clear_def starts_clear_def)

lemma tok8k_appendI1:
  assumes "tok8k A" and "ends_clear A \<or> starts_clear B"
  shows "tok8k (A @ B)"
proof -
  from assms(1) obtain A1 k B1 where A: "A = A1 @ 56 # k # B1" and k: "k = 107 \<or> k = 75"
    and c: "ends_clear A1" "starts_clear B1"
    unfolding tok8k_def by blast
  have "starts_clear (B1 @ B)"
  proof (cases "B1 = []")
    case True
    with A k have "\<not> ends_clear A" by (simp add: ends_clear_def word_k)
    with assms(2) True show ?thesis by simp
  next
    case False
    with c(2) show ?thesis by (simp add: starts_clear_append)
  qed
  moreover have "A @ B = A1 @ 56 # k # (B1 @ B)" using A by simp
  ultimately show ?thesis unfolding tok8k_def using k c(1) by blast
qed

lemma tok8k_appendI2:
  assumes "tok8k B" and "ends_clear A \<or> starts_clear B"
  shows "tok8k (A @ B)"
proof -
  from assms(1) obtain A1 k B1 where B: "B = A1 @ 56 # k # B1" and k: "k = 107 \<or> k = 75"
    and c: "ends_clear A1" "starts_clear B1"
    unfolding tok8k_def by blast
  have "ends_clear (A @ A1)"
  proof (cases "A1 = []")
    case True
    with B have "\<not> starts_clear B" by (simp add: starts_clear_def word_56)
    with assms(2) True show ?thesis by simp
  next
    case False
    with c(1) show ?thesis by (simp add: ends_clear_append)
  qed
  moreover have "A @ B = (A @ A1) @ 56 # k # B1" using B by simp
  ultimately show ?thesis unfolding tok8k_def using k c(2) by blast
qed

lemma tok8k_appendD:
  assumes "tok8k (A @ B)" and "ends_clear A \<or> starts_clear B"
  shows "tok8k A \<or> tok8k B"
proof -
  from assms(1) obtain A1 k B1 where s: "A @ B = A1 @ 56 # k # B1" and k: "k = 107 \<or> k = 75"
    and c: "ends_clear A1" "starts_clear B1"
    unfolding tok8k_def by blast
  from s obtain us where "(A = A1 @ us \<and> us @ B = 56 # k # B1) \<or> (A @ us = A1 \<and> B = us @ 56 # k # B1)"
    unfolding append_eq_append_conv2 by blast
  then show ?thesis
  proof
    assume a: "A = A1 @ us \<and> us @ B = 56 # k # B1"
    show ?thesis
    proof (cases us)
      case Nil
      with a have "B = [] @ 56 # k # B1" by simp
      then have "tok8k B" using k ends_clear_Nil c(2) by (rule tok8kI)
      then show ?thesis ..
    next
      case (Cons u us')
      with a have u: "u = 56" and r: "us' @ B = k # B1" by simp_all
      show ?thesis
      proof (cases us')
        case Nil
        with r a Cons u have "A = A1 @ [56]" "B = k # B1" by simp_all
        then have "\<not> ends_clear A" "\<not> starts_clear B"
          using k by (simp_all add: ends_clear_def starts_clear_def word_56 word_k)
        with assms(2) show ?thesis by simp
      next
        case (Cons v us'')
        with r have v: "v = k" and r': "us'' @ B = B1" by simp_all
        have A: "A = A1 @ 56 # k # us''" using a \<open>us = u # us'\<close> Cons u v by simp
        have "starts_clear us''"
        proof (cases "us'' = []")
          case True
          then show ?thesis by (simp add: starts_clear_def)
        next
          case False
          with c(2) r' show ?thesis by (auto simp: starts_clear_def)
        qed
        with A k c(1) have "tok8k A" unfolding tok8k_def by blast
        then show ?thesis ..
      qed
    qed
  next
    assume b: "A @ us = A1 \<and> B = us @ 56 # k # B1"
    have "ends_clear us"
    proof (cases "us = []")
      case True
      then show ?thesis by (simp add: ends_clear_def)
    next
      case False
      with c(1) b show ?thesis by (auto simp: ends_clear_def)
    qed
    with b k c(2) have "tok8k B" unfolding tok8k_def by blast
    then show ?thesis ..
  qed
qed

lemma tok8k_append:
  "ends_clear A \<or> starts_clear B \<Longrightarrow> tok8k (A @ B) \<longleftrightarrow> tok8k A \<or> tok8k B"
  using tok8k_appendD tok8k_appendI1 tok8k_appendI2 by blast

lemma tok8k_has_56: "tok8k s \<Longrightarrow> 56 \<in> set s"
  unfolding tok8k_def by auto

lemma tok8k_Nil [simp]: "\<not> tok8k []"
  unfolding tok8k_def by simp

subsection \<open>Boundaries\<close>

lemma last_take:
  assumes "0 < j" and "j \<le> length s"
  shows "last (take j s) = s ! (j - 1)"
proof -
  have "take j s \<noteq> []" using assms by auto
  then have "last (take j s) = take j s ! (length (take j s) - 1)" by (rule last_conv_nth)
  also have "\<dots> = s ! (j - 1)" using assms by simp
  finally show ?thesis .
qed

lemma ends_clear_take:
  assumes "j \<le> length s"
  shows "ends_clear (take j s) \<longleftrightarrow> \<not> (0 < j \<and> word_at s (j - 1))"
proof (cases "j = 0")
  case True
  then show ?thesis by simp
next
  case False
  with assms have "take j s \<noteq> []" "j - 1 < length s" by auto
  with False assms show ?thesis
    by (simp add: ends_clear_def word_at_def last_take)
qed

lemma starts_clear_drop: "starts_clear (drop j s) \<longleftrightarrow> \<not> word_at s j"
  by (auto simp: starts_clear_def word_at_def hd_drop_conv_nth)

lemma boundary_word_start:
  "boundary s j \<Longrightarrow> word_at s j \<Longrightarrow> ends_clear (take j s)"
  by (auto simp: boundary_def ends_clear_take word_at_def)

lemma boundary_word_end:
  "boundary s e \<Longrightarrow> 0 < e \<Longrightarrow> word_at s (e - 1) \<Longrightarrow> starts_clear (drop e s)"
  by (auto simp: boundary_def starts_clear_drop)

lemma lit_match_nth:
  "lit_match ic w xs \<Longrightarrow> k < length w \<Longrightarrow> char_eq ic (w ! k) (xs ! k)"
proof (induction ic w xs arbitrary: k rule: lit_match.induct)
  case (3 ic p ps x xs)
  then show ?case by (cases k) auto
qed auto

lemma canon_56: "canonicalize u = 56 \<longleftrightarrow> u = 56"
  by (auto simp: canonicalize_def)

lemma canon_k: "canonicalize u = 75 \<longleftrightarrow> u = 107 \<or> u = 75"
  by (auto simp: canonicalize_def)

lemma rmatch_Seq_WordB:
  "rmatch ic (Seq WordB r) s i = (if boundary s i then rmatch ic r s i else [])"
  by simp

lemma rmatch_Seq_Lit:
  "rmatch ic (Seq (Lit w) r) s i =
     (if lit_match ic w (drop i s) then rmatch ic r s (i + length w) else [])"
  by simp

lemma token_8k_match:
  "matches_at token_8k s j \<longleftrightarrow>
     boundary s j \<and> lit_match True [56, 107] (drop j s) \<and> boundary s (j + 2)"
  unfolding matches_at_def token_8k_def rx_i_def lit_def
  by (simp add: rmatch_Seq_WordB rmatch_Seq_Lit str_simps cu_simps del: rmatch.simps(3))

lemma boundary_appendI:
  "is_word c \<Longrightarrow> ends_clear A \<Longrightarrow> boundary (A @ c # B) (length A)"
  by (cases "A = []") (auto simp: boundary_def word_at_def ends_clear_def nth_append last_conv_nth)

lemma boundary_append_afterI:
  "is_word c \<Longrightarrow> starts_clear B \<Longrightarrow> boundary (A @ c # B) (Suc (length A))"
  by (cases "B = []") (auto simp: boundary_def word_at_def starts_clear_def nth_append hd_conv_nth)

lemma lit_8k:
  "lit_match True [56, 107] xs \<longleftrightarrow> (\<exists>k B. xs = 56 # k # B \<and> (k = 107 \<or> k = 75))"
proof (cases xs)
  case Nil
  then show ?thesis by simp
next
  case (Cons x ys)
  then show ?thesis
    by (cases ys) (auto simp: char_eq_def canon_56 canon_k canonicalize_def)
qed

lemma has_8k_iff: "has_8k s \<longleftrightarrow> (\<exists>j \<le> length s. matches_at token_8k s j)"
proof -
  have "has_8k s \<longleftrightarrow> List.find (matches_at token_8k s) [0 ..< Suc (length s)] \<noteq> None"
    by (simp add: has_8k_def regexp_test_def find_match_def token_8k_def rx_i_def
        split: option.splits del: upt_Suc)
  also have "\<dots> \<longleftrightarrow> (\<exists>j \<le> length s. matches_at token_8k s j)"
    by (auto simp: find_None_iff less_Suc_eq_le simp del: upt_Suc)
  finally show ?thesis .
qed

lemma has_8k_tok8k: "has_8k s \<longleftrightarrow> tok8k s"
proof
  assume "has_8k s"
  then obtain j where j: "j \<le> length s" "boundary s j" "lit_match True [56, 107] (drop j s)"
    "boundary s (j + 2)"
    unfolding has_8k_iff token_8k_match by blast
  from j(3) obtain k B where d: "drop j s = 56 # k # B" and k: "k = 107 \<or> k = 75"
    unfolding lit_8k by blast
  from d have len: "j + 2 \<le> length s"
    by (metis Suc_leI add_2_eq_Suc' drop_eq_Nil linorder_not_less list.distinct(1) drop_Suc tl_drop list.sel(3) drop_drop)
  have s: "s = take j s @ 56 # k # B" using d by (metis append_take_drop_id)
  have B: "B = drop (j + 2) s"
    using d by (metis add.commute drop_drop list.sel(3) drop_Suc drop_0 numeral_2_eq_2 tl_drop)
  have w1: "word_at s j" using d len word_56
    by (metis Cons_nth_drop_Suc add_lessD1 drop_eq_Nil leD le_neq_implies_less list.discI list.inject nat_le_linear word_at_def)
  have w2: "word_at s (j + 1)" using d len k word_k
    by (metis (no_types, lifting) Cons_nth_drop_Suc Suc_eq_plus1 Suc_leI add_2_eq_Suc' drop_eq_Nil leD le_neq_implies_less list.discI list.inject nat_le_linear word_at_def)
  have "ends_clear (take j s)" using j(2) w1 by (rule boundary_word_start)
  moreover have "starts_clear (drop (j + 2) s)"
    using boundary_word_end [OF j(4)] w2 by simp
  ultimately show "tok8k s" using s k B tok8kI by metis
next
  assume "tok8k s"
  then obtain A k B where s: "s = A @ 56 # k # B" and k: "k = 107 \<or> k = 75"
    and c: "ends_clear A" "starts_clear B"
    unfolding tok8k_def by blast
  have "boundary s (length A)"
    unfolding s using word_56 c(1) by (rule boundary_appendI)
  moreover have "lit_match True [56, 107] (drop (length A) s)"
    unfolding s lit_8k using k by simp
  moreover have "boundary s (length A + 2)"
    using boundary_append_afterI [OF word_k [OF k] c(2), of "A @ [56]"] unfolding s by simp
  moreover have "length A \<le> length s" unfolding s by simp
  ultimately show "has_8k s" unfolding has_8k_iff token_8k_match by blast
qed

subsection \<open>The matches of a global replacement\<close>

lemma find_match_Some:
  assumes "find_match re s n = Some (j, e)"
  shows "n \<le> j" "j \<le> length s" "e \<in> set (rmatch (ignoreCase re) (pattern re) s j)"
    "\<And>i. n \<le> i \<Longrightarrow> i < j \<Longrightarrow> \<not> matches_at re s i"
proof -
  from assms have f: "List.find (matches_at re s) [n ..< Suc (length s)] = Some j"
    and e: "e = hd (rmatch (ignoreCase re) (pattern re) s j)"
    by (auto simp: find_match_def simp del: upt_Suc split: option.splits)
  from f obtain k where k: "k < length [n ..< Suc (length s)]" "matches_at re s ([n ..< Suc (length s)] ! k)"
    "j = [n ..< Suc (length s)] ! k" "\<forall>l<k. \<not> matches_at re s ([n ..< Suc (length s)] ! l)"
    unfolding find_Some_iff by blast
  from k(1,3) have j: "j = n + k" "n + k \<le> length s" by (simp_all del: upt_Suc)
  show "n \<le> j" "j \<le> length s" using j by simp_all
  from k(2,3) have "rmatch (ignoreCase re) (pattern re) s j \<noteq> []" by (simp add: matches_at_def)
  with e show "e \<in> set (rmatch (ignoreCase re) (pattern re) s j)" by simp
  show "\<not> matches_at re s i" if "n \<le> i" "i < j" for i
  proof -
    from that j have "i - n < k" "n + (i - n) = i" "i - n < length [n ..< Suc (length s)]"
      by (simp_all del: upt_Suc)
    with k(4) show ?thesis by (metis nth_upt j(1) k(1,3) less_trans that(2) add_less_cancel_left length_upt less_diff_conv add.commute)
  qed
qed

lemma find_match_None_iff:
  "find_match re s n = None \<longleftrightarrow> (\<forall>i. n \<le> i \<and> i \<le> length s \<longrightarrow> \<not> matches_at re s i)"
proof -
  have "find_match re s n = None \<longleftrightarrow> List.find (matches_at re s) [n ..< Suc (length s)] = None"
    by (simp add: find_match_def split: option.splits del: upt_Suc)
  also have "\<dots> \<longleftrightarrow> (\<forall>i. n \<le> i \<and> i \<le> length s \<longrightarrow> \<not> matches_at re s i)"
    by (auto simp: find_None_iff less_Suc_eq_le simp del: upt_Suc)
  finally show ?thesis .
qed

lemma exec_all_scan:
  assumes "\<And>j e. e \<in> set (rmatch (ignoreCase re) (pattern re) s j) \<Longrightarrow> j < e"
  shows "scan_ok re s n (exec_all re s n)"
  using assms
proof (induction re s n rule: exec_all.induct)
  case (1 re s pos)
  show ?case
  proof (cases "pos > length s")
    case True
    then have "exec_all re s pos = []" by (subst exec_all.simps) simp
    with True show ?thesis by auto
  next
    case False
    show ?thesis
    proof (cases "find_match re s pos")
      case None
      then have "exec_all re s pos = []" using False by (subst exec_all.simps) simp
      with None show ?thesis by (simp add: find_match_None_iff)
    next
      case (Some je)
      obtain j e where je: "je = (j, e)" by (cases je)
      note f = find_match_Some [OF Some [unfolded je]]
      from "1.prems" [OF f(3)] have lt: "j < e" .
      from rmatch_bounds [OF f(3)] f(2) have le: "e \<le> length s" by simp
      have ex: "exec_all re s pos = (j, e) # exec_all re s e"
        using False Some je lt by (subst exec_all.simps) simp
      have "scan_ok re s e (exec_all re s e)"
        using "1.IH" [OF False Some [unfolded je] refl] lt "1.prems" by simp
      with f lt le show ?thesis unfolding ex by simp
    qed
  qed
qed

subsection \<open>Removing phrases\<close>

lemma slice_split:
  assumes "a \<le> b" and "b \<le> length s"
  shows "s = take a s @ slice s a b @ drop b s"
proof -
  have "drop a s = take (b - a) (drop a s) @ drop (b - a) (drop a s)"
    by (rule append_take_drop_id [symmetric])
  also have "drop (b - a) (drop a s) = drop b s" using assms by simp
  finally have "drop a s = slice s a b @ drop b s" by (simp add: slice_def)
  then show ?thesis by (metis append_take_drop_id)
qed

lemma length_slice: "a \<le> b \<Longrightarrow> b \<le> length s \<Longrightarrow> length (slice s a b) = b - a"
  by (simp add: slice_def)

lemma slice_full: "slice s a (length s) = drop a s"
  by (simp add: slice_def)

lemma ends_clear_slice:
  assumes "a \<le> b" and "b \<le> length s" and "a = b \<or> \<not> word_at s (b - 1)"
  shows "ends_clear (slice s a b)"
proof (cases "a = b")
  case True
  then show ?thesis by (simp add: slice_def)
next
  case False
  with assms have ne: "slice s a b \<noteq> []" "a < b" by (auto simp: slice_def)
  have "last (slice s a b) = s ! (b - 1)"
  proof -
    have "last (slice s a b) = slice s a b ! (length (slice s a b) - 1)"
      using ne(1) by (rule last_conv_nth)
    also have "\<dots> = s ! (b - 1)" using assms ne(2) by (simp add: slice_def)
    finally show ?thesis .
  qed
  with assms False ne show ?thesis by (auto simp: ends_clear_def word_at_def)
qed

lemma piece_token:
  assumes t: "tok8k (slice s a b)" and ab: "a \<le> b" "b \<le> length s"
    and left: "a = 0 \<or> starts_clear (drop a s) \<or> \<not> word_at s (a - 1)"
    and right: "b = length s \<or> ends_clear (slice s a b)"
  shows "\<exists>A k B. s = A @ 56 # k # B \<and> (k = 107 \<or> k = 75) \<and> ends_clear A \<and> starts_clear B
    \<and> a \<le> length A \<and> length A < b"
proof -
  from t obtain A1 k B1 where p: "slice s a b = A1 @ 56 # k # B1" and k: "k = 107 \<or> k = 75"
    and c: "ends_clear A1" "starts_clear B1"
    unfolding tok8k_def by blast
  have s: "s = (take a s @ A1) @ 56 # k # (B1 @ drop b s)"
    using slice_split [OF ab] p by simp
  have len: "length A1 + 2 \<le> b - a"
    using length_slice [OF ab] p by simp
  have "ends_clear (take a s @ A1)"
  proof (cases "A1 = []")
    case False
    with c(1) show ?thesis by (simp add: ends_clear_append)
  next
    case True
    have "drop a s = 56 # k # B1 @ drop b s"
      using s True by (metis append_Nil append_eq_conv_conj ab(1,2) le_trans length_take min.absorb2 append_assoc append_Cons)
    then have "\<not> starts_clear (drop a s)" by (simp add: starts_clear_def word_56)
    with left have "a = 0 \<or> \<not> word_at s (a - 1)" by blast
    then have "ends_clear (take a s)"
      using ab by (auto simp: ends_clear_take)
    with True show ?thesis by simp
  qed
  moreover have "starts_clear (B1 @ drop b s)"
  proof (cases "B1 = []")
    case False
    with c(2) show ?thesis by (simp add: starts_clear_append)
  next
    case True
    with p k have "\<not> ends_clear (slice s a b)" by (simp add: ends_clear_def word_k)
    with right have "b = length s" by blast
    with True show ?thesis by simp
  qed
  moreover have "a \<le> length (take a s @ A1)" "length (take a s @ A1) < b"
    using ab len by simp_all
  ultimately show ?thesis using s k by blast
qed

lemma strip_no_token:
  assumes scan: "scan_ok re s n ms"
    and chunks: "\<And>j e. e \<in> set (rmatch (ignoreCase re) (pattern re) s j) \<Longrightarrow> chunk s j e"
    and hit: "\<And>A k B. s = A @ 56 # k # B \<Longrightarrow> k = 107 \<or> k = 75 \<Longrightarrow> ends_clear A
        \<Longrightarrow> starts_clear B \<Longrightarrow> matches_at re s (length A)"
    and inv: "\<not> tok8k acc" "ends_clear acc" "n \<le> length s"
      "n = 0 \<or> starts_clear (drop n s) \<or> \<not> word_at s (n - 1)"
  shows "\<not> tok8k (fst (build_replacement s (constantly []) ms n acc ()))"
  using scan inv
proof (induction ms arbitrary: n acc)
  case Nil
  have "\<not> tok8k (drop n s)"
  proof
    assume "tok8k (drop n s)"
    then have "tok8k (slice s n (length s))" by (simp add: slice_full)
    from piece_token [OF this Nil.prems(4) le_refl Nil.prems(5)]
    obtain A k B where "s = A @ 56 # k # B" "k = 107 \<or> k = 75" "ends_clear A" "starts_clear B"
      "n \<le> length A" "length A < length s" by blast
    with hit [of A k B] have "matches_at re s (length A)" "n \<le> length A" "length A \<le> length s"
      by simp_all
    with Nil.prems(1) show False by simp
  qed
  with Nil.prems(2,3) have "\<not> tok8k (acc @ drop n s)"
    using tok8k_appendD by blast
  then show ?case by simp
next
  case (Cons m ms)
  obtain j e where m: "m = (j, e)" by (cases m)
  from Cons.prems(1) have sc: "n \<le> j" "j < e" "e \<le> length s"
    "\<And>i. n \<le> i \<Longrightarrow> i < j \<Longrightarrow> \<not> matches_at re s i"
    "e \<in> set (rmatch (ignoreCase re) (pattern re) s j)" "scan_ok re s e ms"
    unfolding m by simp_all
  from chunks [OF sc(5)] have ch: "word_at s j" "boundary s j"
    "starts_clear (drop e s) \<or> \<not> word_at s (e - 1)"
    unfolding chunk_def by simp_all
  have jl: "j \<le> length s" using sc(2,3) by simp
  have nw: "n = j \<or> \<not> word_at s (j - 1)"
    using ch(1,2) sc(1) by (auto simp: boundary_def)
  have ec: "ends_clear (slice s n j)"
    using sc(1) jl nw by (rule ends_clear_slice)
  have "\<not> tok8k (slice s n j)"
  proof
    assume "tok8k (slice s n j)"
    from piece_token [OF this sc(1) jl Cons.prems(5)] ec
    obtain A k B where "s = A @ 56 # k # B" "k = 107 \<or> k = 75" "ends_clear A" "starts_clear B"
      "n \<le> length A" "length A < j" by blast
    with hit [of A k B] sc(4) [of "length A"] show False by simp
  qed
  with Cons.prems(2,3) have a1: "\<not> tok8k (acc @ slice s n j)"
    using tok8k_appendD by blast
  have a2: "ends_clear (acc @ slice s n j)"
    using ec Cons.prems(3) by (simp add: ends_clear_append)
  have a4: "e = 0 \<or> starts_clear (drop e s) \<or> \<not> word_at s (e - 1)"
    using ch(3) by blast
  from Cons.IH [OF sc(6) _ _ sc(3) a4, of "acc @ slice s n j"] a1 a2
  show ?case unfolding m by (simp add: constantly_def)
qed

lemma canon_word: "is_word (canonicalize u) \<longleftrightarrow> is_word u"
  by (auto simp: canonicalize_def is_word_def)

lemma char_eq_word: "char_eq ic p x \<Longrightarrow> is_word p \<Longrightarrow> is_word x"
  by (metis canon_word char_eq_def)

lemma lit_match_Cons:
  assumes "lit_match ic (p # ps) (drop i s)"
  shows "i < length s \<and> char_eq ic p (s ! i)"
proof (cases "drop i s")
  case Nil
  with assms show ?thesis by simp
next
  case (Cons x xs)
  then have i: "i < length s" by (metis drop_eq_Nil linorder_not_less list.distinct(1))
  then have "s ! i = hd (drop i s)" by (simp add: hd_drop_conv_nth)
  with Cons assms i show ?thesis by simp
qed

lemma rmatch_SeqD:
  "e \<in> set (rmatch ic (Seq r1 r2) s i)
    \<Longrightarrow> \<exists>k. k \<in> set (rmatch ic r1 s i) \<and> e \<in> set (rmatch ic r2 s k)"
  by auto

lemma rmatch_WordBD: "k \<in> set (rmatch ic WordB s i) \<Longrightarrow> k = i \<and> boundary s i"
  by (auto split: if_splits)

lemma rmatch_OptD:
  "k \<in> set (rmatch ic (Opt r) s i) \<Longrightarrow> k = i \<or> k \<in> set (rmatch ic r s i)"
  by auto

lemma starts_word_match:
  "starts_word r \<Longrightarrow> m \<in> set (rmatch ic r s i) \<Longrightarrow> word_at s i \<and> i < m"
proof (induction r arbitrary: m)
  case (Lit w)
  then obtain p ps where w: "w = p # ps" "is_word p" by (cases w) auto
  with Lit.prems(2) have "lit_match ic (p # ps) (drop i s)" "m = i + length w"
    by (auto split: if_splits)
  with lit_match_Cons [of ic p ps i s] w show ?case
    by (auto simp: word_at_def dest: char_eq_word)
next
  case (Seq r1 r2)
  from Seq.prems obtain k where k: "k \<in> set (rmatch ic r1 s i)" "m \<in> set (rmatch ic r2 s k)"
    by auto
  from Seq.IH(1) [OF _ k(1)] Seq.prems(1) rmatch_bounds [OF k(2)] show ?case by auto
qed auto

lemma star_match:
  assumes "e \<in> set (rmatch ic (Star cs) s i)" and "i \<le> k" and "k < e"
  shows "k < length s \<and> in_class ic cs (s ! k)"
proof -
  let ?t = "takeWhile (in_class ic cs) (drop i s)"
  from assms have "e - i \<le> length ?t" by (auto simp: run_length_def)
  with assms have k: "k - i < length ?t" by simp
  then have "?t ! (k - i) \<in> set ?t" by (rule nth_mem)
  then have "in_class ic cs (?t ! (k - i))" by (rule set_takeWhileD [THEN conjunct2])
  moreover have "?t ! (k - i) = drop i s ! (k - i)" using k by (rule takeWhile_nth)
  moreover have "length ?t \<le> length (drop i s)" by (rule length_takeWhile_le)
  ultimately show ?thesis using k assms(2) by (simp add: less_diff_conv2)
qed

lemma space_class: "in_class ic [CSpace] u \<longleftrightarrow> is_space u"
  by (simp add: in_class_def)

lemma comma_eq: "char_eq ic 44 x \<longleftrightarrow> x = 44"
  by (auto simp: char_eq_def canonicalize_def)

lemma tail_match:
  assumes "e \<in> set (rmatch ic (Seq (Opt (Lit [44])) (Star [CSpace])) s m)"
  shows "m \<le> e \<and> (e = m \<or> \<not> word_at s (e - 1))"
proof -
  from rmatch_SeqD [OF assms] obtain m' where m': "m' \<in> set (rmatch ic (Opt (Lit [44])) s m)"
    "e \<in> set (rmatch ic (Star [CSpace]) s m')" by blast
  from rmatch_bounds [OF m'(1)] rmatch_bounds [OF m'(2)] have le: "m \<le> m'" "m' \<le> e" by simp_all
  show ?thesis
  proof (cases "m' < e")
    case True
    with star_match [OF m'(2), of "e - 1"] have "is_space (s ! (e - 1))"
      by (simp add: space_class)
    then show ?thesis using le by (auto simp: word_at_def dest: space_not_word)
  next
    case False
    with le have e: "e = m'" by simp
    show ?thesis
    proof (cases "m' = m")
      case True
      with e show ?thesis by simp
    next
      case False
      with rmatch_OptD [OF m'(1)] have "lit_match ic [44] (drop m s)" "m' = m + 1"
        by (auto split: if_splits)
      with lit_match_Cons [of ic 44 "[]" m s] have "s ! m = 44" "m < length s"
        by (simp_all add: comma_eq)
      with e \<open>m' = m + 1\<close> show ?thesis by (simp add: word_at_def is_word_def)
    qed
  qed
qed

lemma strip_chunk:
  assumes "e \<in> set (rmatch ic (Seq WordB (Seq body (Seq WordB (Seq (Opt (Lit [44])) (Star [CSpace]))))) s j)"
    and "starts_word body"
  shows "chunk s j e \<and> j < e"
proof -
  from rmatch_SeqD [OF assms(1)] obtain j' where j': "j' \<in> set (rmatch ic WordB s j)"
    and 1: "e \<in> set (rmatch ic (Seq body (Seq WordB (Seq (Opt (Lit [44])) (Star [CSpace])))) s j')"
    by blast
  from rmatch_WordBD [OF j'] have b: "boundary s j" and jj: "j' = j" by simp_all
  from rmatch_SeqD [OF 1] jj obtain m where m: "m \<in> set (rmatch ic body s j)"
    and 2: "e \<in> set (rmatch ic (Seq WordB (Seq (Opt (Lit [44])) (Star [CSpace]))) s m)"
    by blast
  from rmatch_SeqD [OF 2] obtain m' where m': "m' \<in> set (rmatch ic WordB s m)"
    and 3: "e \<in> set (rmatch ic (Seq (Opt (Lit [44])) (Star [CSpace])) s m')"
    by blast
  from rmatch_WordBD [OF m'] 3 have bm: "boundary s m"
    and t: "e \<in> set (rmatch ic (Seq (Opt (Lit [44])) (Star [CSpace])) s m)" by simp_all
  from starts_word_match [OF assms(2) m] have w: "word_at s j" "j < m" by simp_all
  from tail_match [OF t] have te: "m \<le> e" "e = m \<or> \<not> word_at s (e - 1)" by simp_all
  have "starts_clear (drop e s) \<or> \<not> word_at s (e - 1)"
  proof (cases "e = m")
    case True
    with bm w(2) show ?thesis by (auto simp: boundary_def starts_clear_drop)
  next
    case False
    with te(2) show ?thesis by simp
  qed
  with b w te(1) show ?thesis by (simp add: chunk_def)
qed

lemma strip_pass:
  assumes pat: "pattern re = Seq WordB (Seq body (Seq WordB (Seq (Opt (Lit [44])) (Star [CSpace]))))"
    and sw: "starts_word body"
    and hit: "\<And>A k B. s = A @ 56 # k # B \<Longrightarrow> k = 107 \<or> k = 75 \<Longrightarrow> ends_clear A
        \<Longrightarrow> starts_clear B \<Longrightarrow> matches_at re s (length A)"
  shows "\<not> tok8k (replace_str re [] s)"
proof -
  have ch: "chunk s j e \<and> j < e" if "e \<in> set (rmatch (ignoreCase re) (pattern re) s j)" for j e
    using that strip_chunk [OF _ sw] unfolding pat by blast
  have sc: "scan_ok re s 0 (exec_all re s 0)"
    by (rule exec_all_scan) (use ch in blast)
  have "\<not> tok8k (fst (build_replacement s (constantly []) (exec_all re s 0) 0 [] ()))"
    by (rule strip_no_token [OF sc _ hit]) (use ch in auto)
  then show ?thesis by (simp add: replace_str_def string_replace_def)
qed

lemma strip_keeps:
  assumes pat: "pattern re = Seq WordB (Seq body (Seq WordB (Seq (Opt (Lit [44])) (Star [CSpace]))))"
    and sw: "starts_word body" and "\<not> tok8k s"
  shows "\<not> tok8k (replace_str re [] s)"
  using pat sw
proof (rule strip_pass)
  fix A k B
  assume "s = A @ 56 # k # B" "k = 107 \<or> k = 75" "ends_clear A" "starts_clear B"
  then have "tok8k s" by (rule tok8kI)
  with assms(3) show "matches_at re s (length A)" by simp
qed

lemma strip_patterns:
  "\<exists>body. pattern strip_resolution = Seq WordB (Seq body (Seq WordB (Seq (Opt (Lit [44])) (Star [CSpace])))) \<and> starts_word body"
  "\<exists>body. pattern strip_platform = Seq WordB (Seq body (Seq WordB (Seq (Opt (Lit [44])) (Star [CSpace])))) \<and> starts_word body"
  "\<exists>body. pattern strip_realistic = Seq WordB (Seq body (Seq WordB (Seq (Opt (Lit [44])) (Star [CSpace])))) \<and> starts_word body"
  "\<exists>body. pattern strip_beauty = Seq WordB (Seq body (Seq WordB (Seq (Opt (Lit [44])) (Star [CSpace])))) \<and> starts_word body"
  "\<exists>body. pattern strip_lighting = Seq WordB (Seq body (Seq WordB (Seq (Opt (Lit [44])) (Star [CSpace])))) \<and> starts_word body"
  by (simp_all add: strip_resolution_def strip_platform_def strip_realistic_def strip_beauty_def
      strip_lighting_def strip_tail_def rx_gi_def words_def lit_def str_simps cu_simps is_word_def)

lemma strip_resolution_hit:
  assumes "s = A @ 56 # k # B" and "k = 107 \<or> k = 75" and "ends_clear A" and "starts_clear B"
  shows "matches_at strip_resolution s (length A)"
proof -
  have b1: "boundary s (length A)"
    unfolding assms(1) using word_56 assms(3) by (rule boundary_appendI)
  have l: "lit_match True [56, 107] (drop (length A) s)"
    unfolding assms(1) lit_8k using assms(2) by simp
  have b2: "boundary s (length A + 2)"
    using boundary_append_afterI [OF word_k [OF assms(2)] assms(4), of "A @ [56]"]
    unfolding assms(1) by simp
  have t: "rmatch True (Seq (Opt (Lit [44])) (Star [CSpace])) s n \<noteq> []" for n
    by simp
  show ?thesis
    unfolding matches_at_def strip_resolution_def strip_tail_def rx_gi_def words_def lit_def
    using b1 l b2 t [of "length A + 2"]
    by (simp add: str_simps cu_simps del: rmatch.simps(5,6))
qed

lemma strip_resolution_no_token: "\<not> tok8k (replace_str strip_resolution [] s)"
  using strip_patterns(1) strip_pass [of strip_resolution _ s] strip_resolution_hit [of s]
  by blast

subsection \<open>Replacing separators\<close>

lemma nonword_clear:
  assumes "\<forall>c \<in> set X. \<not> is_word c"
  shows "ends_clear X" "starts_clear X" "\<not> tok8k X"
proof -
  show "ends_clear X" using assms by (cases "X = []") (auto simp: ends_clear_def)
  show "starts_clear X" using assms by (cases X) (auto simp: starts_clear_def)
  show "\<not> tok8k X" using assms tok8k_has_56 word_56 by blast
qed

lemma nonword_splice:
  assumes X: "X \<noteq> []" "\<forall>c \<in> set X. \<not> is_word c" and Y: "\<forall>c \<in> set Y. \<not> is_word c"
    and e: "Y = [] \<longrightarrow> A = [] \<or> B = []" and t: "tok8k (A @ Y @ B)"
  shows "tok8k (A @ X @ B)"
proof -
  note cx = nonword_clear [OF X(2)] and cy = nonword_clear [OF Y]
  have sx: "starts_clear (X @ B)" using cx(2) X(1) by (simp add: starts_clear_append)
  have inA: "tok8k (A @ X @ B)" if "tok8k A"
    using that sx by (simp add: tok8k_appendI1)
  have inB: "tok8k (A @ X @ B)" if "tok8k B"
  proof -
    from that cx(1) have "tok8k (X @ B)" by (simp add: tok8k_appendI2)
    with sx show ?thesis by (simp add: tok8k_appendI2)
  qed
  show ?thesis
  proof (cases "Y = []")
    case True
    with e t have "tok8k A \<or> tok8k B" by auto
    with inA inB show ?thesis by blast
  next
    case False
    then have "starts_clear (Y @ B)" using cy(2) by (simp add: starts_clear_append)
    with t have "tok8k A \<or> tok8k (Y @ B)" using tok8k_appendD by blast
    moreover have "tok8k Y \<or> tok8k B" if "tok8k (Y @ B)"
      using that cy(1) tok8k_appendD by blast
    ultimately have "tok8k A \<or> tok8k B" using cy(3) by blast
    with inA inB show ?thesis by blast
  qed
qed

lemma drop_slices:
  assumes "n \<le> j" and "j \<le> e" and "e \<le> length s"
  shows "drop n s = slice s n j @ slice s j e @ drop e s"
proof -
  have "drop n s = slice s n j @ drop j s"
    using assms slice_split [of n j s] by (metis append_eq_conv_conj le_trans length_take min.absorb2)
  moreover have "drop j s = slice s j e @ drop e s"
    using assms slice_split [of j e s] by (metis append_eq_conv_conj le_trans length_take min.absorb2)
  ultimately show ?thesis by simp
qed

lemma set_slice:
  assumes "c \<in> set (slice s j e)"
  shows "\<exists>i. j \<le> i \<and> i < e \<and> i < length s \<and> c = s ! i"
proof -
  from assms obtain k where k: "k < length (slice s j e)" "c = slice s j e ! k"
    by (metis in_set_conv_nth)
  then have "k < e - j" "k < length s - j" by (simp_all add: slice_def)
  then have "j + k < e" "j + k < length s" by arith+
  with k show ?thesis by (intro exI [of _ "j + k"]) (simp add: slice_def)
qed

lemma separator_pass:
  assumes scan: "scan_ok re s n ms"
    and seg: "\<And>j e i. e \<in> set (rmatch (ignoreCase re) (pattern re) s j)
        \<Longrightarrow> j \<le> i \<Longrightarrow> i < e \<Longrightarrow> \<not> word_at s i"
    and ends: "\<And>j e. y = [] \<Longrightarrow> e \<in> set (rmatch (ignoreCase re) (pattern re) s j)
        \<Longrightarrow> j = 0 \<or> e = length s"
    and y: "\<forall>c \<in> set y. \<not> is_word c"
    and inv: "\<not> tok8k (acc @ drop n s)" "n = 0 \<longrightarrow> acc = []"
  shows "\<not> tok8k (fst (build_replacement s (constantly y) ms n acc ()))"
  using scan inv
proof (induction ms arbitrary: n acc)
  case Nil
  then show ?case by simp
next
  case (Cons m ms)
  obtain j e where m: "m = (j, e)" by (cases m)
  from Cons.prems(1) have sc: "n \<le> j" "j < e" "e \<le> length s"
    "e \<in> set (rmatch (ignoreCase re) (pattern re) s j)" "scan_ok re s e ms"
    unfolding m by simp_all
  let ?A = "acc @ slice s n j" and ?X = "slice s j e" and ?B = "drop e s"
  have X1: "?X \<noteq> []" using sc(2,3) by (simp add: slice_def)
  have X2: "\<forall>c \<in> set ?X. \<not> is_word c"
  proof
    fix c assume "c \<in> set ?X"
    from set_slice [OF this] obtain i where "j \<le> i" "i < e" "i < length s" "c = s ! i" by blast
    with seg [OF sc(4), of i] show "\<not> is_word c" by (simp add: word_at_def)
  qed
  have E: "y = [] \<longrightarrow> ?A = [] \<or> ?B = []"
  proof
    assume "y = []"
    from ends [OF this sc(4)] show "?A = [] \<or> ?B = []"
    proof
      assume "j = 0"
      with sc(1) Cons.prems(3) show ?thesis by (simp add: slice_def)
    next
      assume "e = length s"
      then show ?thesis by simp
    qed
  qed
  have "drop n s = slice s n j @ ?X @ ?B"
    using sc(1,2,3) by (intro drop_slices) simp_all
  with Cons.prems(2) have "\<not> tok8k (?A @ ?X @ ?B)" by simp
  with nonword_splice [OF X1 X2 y E] have "\<not> tok8k (?A @ y @ ?B)" by blast
  then have a: "\<not> tok8k ((?A @ y) @ drop e s)" by simp
  have b: "e = 0 \<longrightarrow> ?A @ y = []" using sc(2) by simp
  from Cons.IH [OF sc(5) a b] show ?case unfolding m by (simp add: constantly_def)
qed

lemma plus_match:
  assumes "e \<in> set (rmatch ic (Plus cs) s i)"
  shows "i < e" and "\<And>k. i \<le> k \<Longrightarrow> k < e \<Longrightarrow> k < length s \<and> in_class ic cs (s ! k)"
proof -
  from assms show "i < e" by auto
  from assms have "e \<in> set (rmatch ic (Star cs) s i)" by auto
  from star_match [OF this] show "k < length s \<and> in_class ic cs (s ! k)" if "i \<le> k" "k < e" for k
    using that by blast
qed

lemma separator_class: "in_class False [CChar 44, CSpace] u \<Longrightarrow> \<not> is_word u"
  by (auto simp: in_class_def char_eq_def is_word_def dest: space_not_word)

lemma double_comma_match:
  assumes "e \<in> set (rmatch False (pattern double_comma) s j)"
  shows "j < e" and "\<And>i. j \<le> i \<Longrightarrow> i < e \<Longrightarrow> \<not> word_at s i"
proof -
  have p: "pattern double_comma = Seq (Lit [44]) (Seq (Star [CSpace]) (Lit [44]))"
    by (simp add: double_comma_def rx_g_def lit_def str_simps cu_simps)
  from rmatch_SeqD [OF assms [unfolded p]] obtain a where a: "a \<in> set (rmatch False (Lit [44]) s j)"
    and 1: "e \<in> set (rmatch False (Seq (Star [CSpace]) (Lit [44])) s a)" by blast
  from rmatch_SeqD [OF 1] obtain b where b: "b \<in> set (rmatch False (Star [CSpace]) s a)"
    and c: "e \<in> set (rmatch False (Lit [44]) s b)" by blast
  from a have a': "a = j + 1" "lit_match False [44] (drop j s)" by (auto split: if_splits)
  from c have c': "e = b + 1" "lit_match False [44] (drop b s)" by (auto split: if_splits)
  from lit_match_Cons [OF a'(2)] have sj: "s ! j = 44" by (simp add: comma_eq)
  from lit_match_Cons [OF c'(2)] have sb: "s ! b = 44" by (simp add: comma_eq)
  from rmatch_bounds [OF b] have ab: "a \<le> b" by simp
  show "j < e" using a' c' ab by simp
  show "\<not> word_at s i" if "j \<le> i" "i < e" for i
  proof -
    have "i = j \<or> (a \<le> i \<and> i < b) \<or> i = b" using that a' c' by arith
    then consider "i = j" | "a \<le> i" "i < b" | "i = b" by blast
    then show ?thesis
    proof cases
      case 1
      with sj show ?thesis by (simp add: word_at_def is_word_def)
    next
      case 2
      with star_match [OF b, of i] show ?thesis
        by (auto simp: word_at_def space_class dest: space_not_word)
    next
      case 3
      with sb show ?thesis by (simp add: word_at_def is_word_def)
    qed
  qed
qed

lemma spaces_match:
  assumes "e \<in> set (rmatch False (pattern spaces) s j)"
  shows "j < e" and "\<And>i. j \<le> i \<Longrightarrow> i < e \<Longrightarrow> \<not> word_at s i"
proof -
  have p: "pattern spaces = Plus [CSpace]" by (simp add: spaces_def rx_g_def)
  note m = plus_match [OF assms [unfolded p]]
  show "j < e" by (rule m(1))
  show "\<not> word_at s i" if "j \<le> i" "i < e" for i
    using m(2) [OF that] by (auto simp: word_at_def space_class dest: space_not_word)
qed

lemma outer_separators_match:
  assumes "e \<in> set (rmatch False (pattern outer_separators) s j)"
  shows "j < e" and "\<And>i. j \<le> i \<Longrightarrow> i < e \<Longrightarrow> \<not> word_at s i" and "j = 0 \<or> e = length s"
proof -
  have p: "pattern outer_separators
      = Alt (Seq Bol (Plus [CChar 44, CSpace])) (Seq (Plus [CChar 44, CSpace]) Eol)"
    by (simp add: outer_separators_def rx_g_def)
  from assms [unfolded p]
  have "e \<in> set (rmatch False (Seq Bol (Plus [CChar 44, CSpace])) s j)
      \<or> e \<in> set (rmatch False (Seq (Plus [CChar 44, CSpace]) Eol) s j)"
    by (simp only: rmatch.simps(4) set_append Un_iff)
  then have "e \<in> set (rmatch False (Plus [CChar 44, CSpace]) s j) \<and> (j = 0 \<or> e = length s)"
  proof
    assume "e \<in> set (rmatch False (Seq Bol (Plus [CChar 44, CSpace])) s j)"
    from rmatch_SeqD [OF this] obtain k where "k \<in> set (rmatch False Bol s j)"
      "e \<in> set (rmatch False (Plus [CChar 44, CSpace]) s k)" by blast
    then show ?thesis by (auto split: if_splits)
  next
    assume "e \<in> set (rmatch False (Seq (Plus [CChar 44, CSpace]) Eol) s j)"
    from rmatch_SeqD [OF this] obtain k where "k \<in> set (rmatch False (Plus [CChar 44, CSpace]) s j)"
      "e \<in> set (rmatch False Eol s k)" by blast
    then show ?thesis by (auto split: if_splits)
  qed
  then have m: "e \<in> set (rmatch False (Plus [CChar 44, CSpace]) s j)" and "j = 0 \<or> e = length s"
    by simp_all
  then show "j = 0 \<or> e = length s" by simp
  note q = plus_match [OF m]
  show "j < e" by (rule q(1))
  show "\<not> word_at s i" if "j \<le> i" "i < e" for i
    using q(2) [OF that] by (auto simp: word_at_def dest: separator_class)
qed

lemma double_comma_keeps:
  assumes "\<not> tok8k s"
  shows "\<not> tok8k (replace_str double_comma (str '','') s)"
proof -
  have ic: "ignoreCase double_comma = False" by (simp add: double_comma_def rx_g_def)
  have sc: "scan_ok double_comma s 0 (exec_all double_comma s 0)"
    by (rule exec_all_scan) (use double_comma_match(1) ic in simp)
  have "\<not> tok8k (fst (build_replacement s (constantly (str '','')) (exec_all double_comma s 0) 0 [] ()))"
    by (rule separator_pass [OF sc])
      (use double_comma_match(2) ic assms in \<open>simp_all add: str_simps cu_simps is_word_def\<close>)
  then show ?thesis by (simp add: replace_str_def string_replace_def)
qed

lemma spaces_keeps:
  assumes "\<not> tok8k s"
  shows "\<not> tok8k (replace_str spaces (str '' '') s)"
proof -
  have ic: "ignoreCase spaces = False" by (simp add: spaces_def rx_g_def)
  have sc: "scan_ok spaces s 0 (exec_all spaces s 0)"
    by (rule exec_all_scan) (use spaces_match(1) ic in simp)
  have "\<not> tok8k (fst (build_replacement s (constantly (str '' '')) (exec_all spaces s 0) 0 [] ()))"
    by (rule separator_pass [OF sc])
      (use spaces_match(2) ic assms in \<open>simp_all add: str_simps cu_simps is_word_def\<close>)
  then show ?thesis by (simp add: replace_str_def string_replace_def)
qed

lemma outer_separators_keeps:
  assumes "\<not> tok8k s"
  shows "\<not> tok8k (replace_str outer_separators [] s)"
proof -
  have ic: "ignoreCase outer_separators = False" by (simp add: outer_separators_def rx_g_def)
  have sc: "scan_ok outer_separators s 0 (exec_all outer_separators s 0)"
    by (rule exec_all_scan) (use outer_separators_match(1) ic in simp)
  have "\<not> tok8k (fst (build_replacement s (constantly []) (exec_all outer_separators s 0) 0 [] ()))"
    by (rule separator_pass [OF sc])
      (use outer_separators_match(2,3) ic assms in simp_all)
  then show ?thesis by (simp add: replace_str_def string_replace_def)
qed

lemma cleanPrompt_no_token: "\<not> tok8k (cleanPrompt s)"
proof -
  note k = strip_keeps
  have 1: "\<not> tok8k (replace_str strip_resolution [] s)" by (rule strip_resolution_no_token)
  have 2: "\<not> tok8k (replace_str strip_platform [] t)" if "\<not> tok8k t" for t
    using strip_patterns(2) that k by blast
  have 3: "\<not> tok8k (replace_str strip_realistic [] t)" if "\<not> tok8k t" for t
    using strip_patterns(3) that k by blast
  have 4: "\<not> tok8k (replace_str strip_beauty [] t)" if "\<not> tok8k t" for t
    using strip_patterns(4) that k by blast
  have 5: "\<not> tok8k (replace_str strip_lighting [] t)" if "\<not> tok8k t" for t
    using strip_patterns(5) that k by blast
  show ?thesis
    unfolding cleanPrompt_def Let_def
    by (intro outer_separators_keeps spaces_keeps double_comma_keeps 5 4 3 2 1)
qed

subsection \<open>Replacing phrases\<close>

lemma no_eight_token: "56 \<notin> set y \<Longrightarrow> \<not> tok8k y"
  using tok8k_has_56 by blast

lemma phrase_pass:
  assumes scan: "scan_ok re s n ms"
    and m: "\<And>j e. e \<in> set (rmatch (ignoreCase re) (pattern re) s j)
        \<Longrightarrow> word_at s j \<and> boundary s j \<and> starts_clear (drop e s)"
    and f: "\<And>j e st. e \<in> set (rmatch (ignoreCase re) (pattern re) s j)
        \<Longrightarrow> \<not> tok8k (fst (f (slice s j e) st))"
    and inv: "\<not> tok8k (acc @ drop n s)" "(n = 0 \<and> acc = []) \<or> starts_clear (drop n s)"
  shows "\<not> tok8k (fst (build_replacement s f ms n acc st))"
  using scan inv
proof (induction ms arbitrary: n acc st)
  case Nil
  then show ?case by simp
next
  case (Cons p ms)
  obtain j e where p: "p = (j, e)" by (cases p)
  from Cons.prems(1) have sc: "n \<le> j" "j < e" "e \<le> length s"
    "e \<in> set (rmatch (ignoreCase re) (pattern re) s j)" "scan_ok re s e ms"
    unfolding p by simp_all
  obtain y st' where y: "f (slice s j e) st = (y, st')" by (cases "f (slice s j e) st")
  from f [OF sc(4), of st] y have ny: "\<not> tok8k y" by simp
  from m [OF sc(4)] have w: "word_at s j" and b: "boundary s j" and cB: "starts_clear (drop e s)"
    by simp_all
  let ?A = "acc @ slice s n j" and ?X = "slice s j e" and ?B = "drop e s"
  have cA: "ends_clear ?A"
  proof (cases "n < j")
    case True
    from b w have "\<not> word_at s (j - 1)" using True by (auto simp: boundary_def)
    then have "ends_clear (slice s n j)"
      using sc(1,2,3) by (intro ends_clear_slice) simp_all
    moreover have "slice s n j \<noteq> []" using True sc(2,3) by (simp add: slice_def)
    ultimately show ?thesis by (simp add: ends_clear_append)
  next
    case False
    with sc(1) have nj: "n = j" by simp
    from Cons.prems(3) show ?thesis
    proof
      assume "n = 0 \<and> acc = []"
      with nj show ?thesis by (simp add: slice_def)
    next
      assume "starts_clear (drop n s)"
      with w nj show ?thesis by (simp add: starts_clear_drop)
    qed
  qed
  have d: "drop n s = slice s n j @ ?X @ ?B"
    using sc(1,2,3) by (intro drop_slices) simp_all
  have a: "\<not> tok8k ((?A @ y) @ ?B)"
  proof
    assume "tok8k ((?A @ y) @ ?B)"
    then have "tok8k (?A @ (y @ ?B))" by simp
    with cA have "tok8k ?A \<or> tok8k (y @ ?B)" using tok8k_appendD by blast
    moreover have "tok8k y \<or> tok8k ?B" if "tok8k (y @ ?B)"
      using that cB tok8k_appendD by blast
    ultimately have "tok8k ?A \<or> tok8k ?B" using ny by blast
    then have "tok8k (?A @ (?X @ ?B))"
    proof
      assume "tok8k ?A"
      with cA show ?thesis using tok8k_appendI1 [of ?A "?X @ ?B"] by blast
    next
      assume "tok8k ?B"
      with cB have "tok8k (?X @ ?B)" using tok8k_appendI2 [of ?B ?X] by blast
      with cA show ?thesis using tok8k_appendI2 [of "?X @ ?B" ?A] by blast
    qed
    with Cons.prems(2) d show False by simp
  qed
  have c: "(e = 0 \<and> ?A @ y = []) \<or> starts_clear (drop e s)" using cB by simp
  from Cons.IH [OF sc(5) a c, of st'] y show ?case unfolding p by simp
qed

lemma ends_word_match:
  "ends_word r \<Longrightarrow> m \<in> set (rmatch ic r s i) \<Longrightarrow> i < m \<and> word_at s (m - 1)"
proof (induction r arbitrary: m i)
  case (Lit w)
  from Lit.prems have w: "w \<noteq> []" "is_word (last w)" and l: "lit_match ic w (drop i s)"
    and m: "m = i + length w"
    by (auto split: if_splits)
  from lit_match_length [OF l] have len: "i + length w \<le> length s" using w(1)
    by (cases "i < length s") auto
  from lit_match_nth [OF l, of "length w - 1"] w(1)
  have "char_eq ic (last w) (drop i s ! (length w - 1))" by (simp add: last_conv_nth)
  moreover have "drop i s ! (length w - 1) = s ! (m - 1)"
    using len w(1) m by (cases w) simp_all
  ultimately have "is_word (s ! (m - 1))" using w(2) char_eq_word by metis
  with len m w(1) show ?case by (cases w) (simp_all add: word_at_def)
next
  case (Seq r1 r2)
  from Seq.prems obtain k where k: "k \<in> set (rmatch ic r1 s i)" "m \<in> set (rmatch ic r2 s k)"
    by auto
  from Seq.IH(2) [OF _ k(2)] Seq.prems(1) rmatch_bounds [OF k(1)] show ?case by auto
qed auto

lemma eight_eq: "char_eq ic p 56 \<longleftrightarrow> p = 56"
  by (auto simp: char_eq_def canonicalize_def)

lemma slice_append:
  assumes "i \<le> k" and "k \<le> e"
  shows "slice s i e = slice s i k @ slice s k e"
proof -
  have "take (e - i) (drop i s) = take (k - i) (drop i s) @ take (e - k) (drop (k - i) (drop i s))"
    using assms by (metis add_diff_cancel_left' le_add_diff_inverse le_trans take_add
        Nat.diff_add_assoc2 add.commute diff_diff_cancel)
  then show ?thesis using assms by (simp add: slice_def)
qed

lemma no_eight_match:
  "no_eight r \<Longrightarrow> e \<in> set (rmatch ic r s i) \<Longrightarrow> 56 \<notin> set (slice s i e)"
proof (induction r arbitrary: e i)
  case (Lit w)
  from Lit.prems have w: "56 \<notin> set w" and l: "lit_match ic w (drop i s)"
    and e: "e = i + length w"
    by (auto split: if_splits)
  show ?case
  proof
    assume "56 \<in> set (slice s i e)"
    then obtain k where k: "k < length (slice s i e)" "slice s i e ! k = 56"
      by (metis in_set_conv_nth)
    then have kw: "k < length w" and "drop i s ! k = 56" using e by (simp_all add: slice_def)
    with lit_match_nth [OF l kw] have "w ! k = 56" by (simp add: eight_eq)
    with kw w show False by (metis nth_mem)
  qed
next
  case (Seq r1 r2)
  from Seq.prems obtain k where k: "k \<in> set (rmatch ic r1 s i)" "e \<in> set (rmatch ic r2 s k)"
    by auto
  from rmatch_bounds [OF k(1)] rmatch_bounds [OF k(2)] have "i \<le> k" "k \<le> e" by simp_all
  from slice_append [OF this] Seq.IH(1) [OF _ k(1)] Seq.IH(2) [OF _ k(2)] Seq.prems(1)
  show ?case by simp
qed auto

lemma closing_match:
  assumes "t = WordB \<or> t = Seq WordB (NegLook q)" and "e \<in> set (rmatch ic t s m)"
  shows "e = m \<and> boundary s m"
  using assms by (auto split: if_splits)

lemma phrase_match:
  assumes e: "e \<in> set (rmatch ic (Seq WordB (Seq r t)) s j)"
    and t: "t = WordB \<or> t = Seq WordB (NegLook q)"
    and r: "starts_word r" "ends_word r" "no_eight r"
  shows "phrase_at s j e"
proof -
  from rmatch_SeqD [OF e] obtain j' where j': "j' \<in> set (rmatch ic WordB s j)"
    and 1: "e \<in> set (rmatch ic (Seq r t) s j')" by blast
  from rmatch_WordBD [OF j'] have b: "boundary s j" and jj: "j' = j" by simp_all
  from rmatch_SeqD [OF 1] jj obtain m where m: "m \<in> set (rmatch ic r s j)"
    and 2: "e \<in> set (rmatch ic t s m)" by blast
  from closing_match [OF t 2] have em: "e = m" and be: "boundary s e" by simp_all
  from starts_word_match [OF r(1) m] have w: "word_at s j" "j < e" using em by simp_all
  from ends_word_match [OF r(2) m] have "word_at s (e - 1)" using em by simp
  with be w(2) have "starts_clear (drop e s)" by (intro boundary_word_end) simp_all
  moreover from no_eight_match [OF r(3) m] have "56 \<notin> set (slice s j e)" using em by simp
  ultimately show ?thesis using w b by (simp add: phrase_at_def)
qed

lemma rmatch_Seq_assoc:
  "set (rmatch ic (Seq a (Seq b c)) s i) = set (rmatch ic (Seq (Seq a b) c) s i)"
  by auto

lemma phrase_match2:
  assumes e: "e \<in> set (rmatch ic (Seq WordB (Seq r1 (Seq r2 t))) s j)"
    and t: "t = WordB \<or> t = Seq WordB (NegLook q)"
    and r: "starts_word r1" "ends_word r2" "no_eight r1" "no_eight r2"
  shows "phrase_at s j e"
proof -
  from rmatch_SeqD [OF e] obtain j' where j': "j' \<in> set (rmatch ic WordB s j)"
    and 1: "e \<in> set (rmatch ic (Seq r1 (Seq r2 t)) s j')" by blast
  from 1 have "e \<in> set (rmatch ic (Seq (Seq r1 r2) t) s j')"
    unfolding rmatch_Seq_assoc .
  with j' have "e \<in> set (rmatch ic (Seq WordB (Seq (Seq r1 r2) t)) s j)" by auto
  from phrase_match [OF this t] r show ?thesis by simp
qed

lemma phrase_keeps:
  assumes m: "\<And>j e. e \<in> set (rmatch (ignoreCase re) (pattern re) s j) \<Longrightarrow> phrase_at s j e"
    and f: "\<And>m st. 56 \<notin> set m \<Longrightarrow> 56 \<notin> set (fst (f m st))"
    and s: "\<not> tok8k s"
  shows "\<not> tok8k (fst (string_replace re f s st))"
proof -
  have sc: "scan_ok re s 0 (exec_all re s 0)"
    by (rule exec_all_scan) (use m in \<open>simp add: phrase_at_def\<close>)
  have "\<not> tok8k (fst (build_replacement s f (exec_all re s 0) 0 [] st))"
  proof (rule phrase_pass [OF sc])
    fix j e assume e: "e \<in> set (rmatch (ignoreCase re) (pattern re) s j)"
    from m [OF e] show "word_at s j \<and> boundary s j \<and> starts_clear (drop e s)"
      by (simp add: phrase_at_def)
    from m [OF e] have "56 \<notin> set (slice s j e)" by (simp add: phrase_at_def)
    from f [OF this] show "\<not> tok8k (fst (f (slice s j e) st'))" for st'
      by (rule no_eight_token)
  qed (use s in simp_all)
  then show ?thesis by (simp add: string_replace_def)
qed

lemma random_index_less: "0 < n \<Longrightarrow> random_index n w = (i, w') \<Longrightarrow> i < n"
  by (auto simp: random_index_def draw_def)

lemma phrases_no_eight:
  "list_all (\<lambda>x. 56 \<notin> set x) ages"
  "list_all (\<lambda>x. 56 \<notin> set x) details"
  "list_all (\<lambda>x. 56 \<notin> set x) types"
  "list_all (\<lambda>fam. list_all (\<lambda>x. 56 \<notin> set x) (snd fam)) locationEnhancements"
  by (simp_all add: ages_def details_def types_def locationEnhancements_def str_simps cu_simps)

lemma nth_no_eight:
  "list_all (\<lambda>x. 56 \<notin> set x) xs \<Longrightarrow> i < length xs \<Longrightarrow> 56 \<notin> set (xs ! i)"
  by (simp add: list_all_length)

lemma enhance_woman_man_no_eight:
  assumes "56 \<notin> set m"
  shows "56 \<notin> set (fst (enhance_woman_man m st))"
proof -
  obtain i w1 where i: "random_index (length ages) st = (i, w1)"
    by (cases "random_index (length ages) st")
  obtain j w2 where j: "random_index (length details) w1 = (j, w2)"
    by (cases "random_index (length details) w1")
  have "i < length ages" by (rule random_index_less [OF _ i]) (simp add: ages_def)
  then have a: "56 \<notin> set (ages ! i)" by (rule nth_no_eight [OF phrases_no_eight(1)])
  have "j < length details" by (rule random_index_less [OF _ j]) (simp add: details_def)
  then have d: "56 \<notin> set (details ! j)" by (rule nth_no_eight [OF phrases_no_eight(2)])
  have s: "56 \<notin> set (drop 2 m)" using assms by (meson in_set_dropD)
  have "fst (enhance_woman_man m st)
      = str ''a '' @ drop 2 m @ str '' '' @ ages ! i @ str '' '' @ details ! j"
    by (simp add: enhance_woman_man_def i j)
  with a d s show ?thesis by (simp add: str_simps cu_simps)
qed

lemma enhance_person_no_eight: "56 \<notin> set (fst (enhance_person m st))"
proof -
  obtain i w1 where i: "random_index (length types) st = (i, w1)"
    by (cases "random_index (length types) st")
  have "i < length types" by (rule random_index_less [OF _ i]) (simp add: types_def)
  then have "56 \<notin> set (types ! i)" by (rule nth_no_eight [OF phrases_no_eight(3)])
  then show ?thesis by (simp add: enhance_person_def i)
qed

lemma bare_woman_man_match:
  assumes "e \<in> set (rmatch (ignoreCase bare_woman_man) (pattern bare_woman_man) s j)"
  shows "phrase_at s j e"
proof -
  obtain q where p: "pattern bare_woman_man = Seq WordB (Seq (Lit (str ''a ''))
      (Seq (Alt (Lit (str ''woman'')) (Lit (str ''man''))) (Seq WordB (NegLook q))))"
    by (simp add: bare_woman_man_def rx_gi_def lit_def words_def)
  show ?thesis
    by (rule phrase_match2 [OF assms [unfolded p]]) (simp_all add: str_simps cu_simps is_word_def)
qed

lemma bare_person_match:
  assumes "e \<in> set (rmatch (ignoreCase bare_person) (pattern bare_person) s j)"
  shows "phrase_at s j e"
proof -
  obtain q where p: "pattern bare_person = Seq WordB (Seq (Lit (str ''a person''))
      (Seq WordB (NegLook q)))"
    by (simp add: bare_person_def rx_gi_def lit_def)
  show ?thesis
    by (rule phrase_match [OF assms [unfolded p]]) (simp_all add: str_simps cu_simps is_word_def)
qed

lemma enhanceSubject_keeps:
  assumes "\<not> tok8k s"
  shows "\<not> tok8k (fst (enhanceSubject s w))"
proof -
  obtain t w1 where t: "string_replace bare_woman_man enhance_woman_man s w = (t, w1)"
    by (cases "string_replace bare_woman_man enhance_woman_man s w")
  have "\<not> tok8k (fst (string_replace bare_woman_man enhance_woman_man s w))"
    by (rule phrase_keeps [OF bare_woman_man_match enhance_woman_man_no_eight assms])
  with t have "\<not> tok8k t" by simp
  have "\<not> tok8k (fst (string_replace bare_person enhance_person t w1))"
    by (rule phrase_keeps [OF bare_person_match enhance_person_no_eight \<open>\<not> tok8k t\<close>])
  with t show ?thesis by (simp add: enhanceSubject_def)
qed

lemma location_regex_match:
  assumes "e \<in> set (rmatch (ignoreCase (location_regex g)) (pattern (location_regex g)) s j)"
    and "place g"
  shows "phrase_at s j e"
proof -
  have p: "pattern (location_regex g) = Seq WordB (Seq (Alt (Lit (str ''in a''))
      (Alt (Lit (str ''at a'')) (Lit (str ''at the'')))) (Seq (Lit (str ('' '' @ g))) WordB))"
    by (simp add: location_regex_def rx_gi_def lit_def words_def)
  have l: "last (str ('' '' @ g)) = last (str g)" using assms(2)
    by (simp add: place_def str_def)
  have n: "56 \<notin> set (str ('' '' @ g))" using assms(2)
    by (simp add: place_def str_def cu_simps)
  show ?thesis
    by (rule phrase_match2 [OF assms(1) [unfolded p]])
      (use assms(2) l n in \<open>simp_all add: place_def str_simps cu_simps is_word_def\<close>)
qed

lemma location_keeps:
  assumes "place g" and "56 \<notin> set y" and "\<not> tok8k s"
  shows "\<not> tok8k (replace_str (location_regex g) (str ''at '' @ y) s)"
proof -
  have "\<not> tok8k (fst (string_replace (location_regex g) (constantly (str ''at '' @ y)) s ()))"
    by (rule phrase_keeps [OF location_regex_match [OF _ assms(1)] _ assms(3)])
      (use assms(2) in \<open>simp_all add: constantly_def str_simps cu_simps\<close>)
  then show ?thesis by (simp add: replace_str_def)
qed

lemma enhance_locations_keeps:
  assumes "list_all (\<lambda>fam. place (fst fam) \<and> snd fam \<noteq> []
      \<and> list_all (\<lambda>x. 56 \<notin> set x) (snd fam)) fams"
    and "\<not> tok8k s"
  shows "\<not> tok8k (fst (enhance_locations fams s w))"
  using assms(1)
proof (induction fams)
  case Nil
  with assms(2) show ?case by simp
next
  case (Cons fam fams)
  obtain g sp where fam: "fam = (g, sp)" by (cases fam)
  from Cons.prems fam have g: "place g" "sp \<noteq> []" "list_all (\<lambda>x. 56 \<notin> set x) sp" by simp_all
  show ?case
  proof (cases "fst (regexp_test (location_regex g) 0 s)")
    case True
    obtain i w1 where i: "random_index (length sp) w = (i, w1)"
      by (cases "random_index (length sp) w")
    have "i < length sp" by (rule random_index_less [OF _ i]) (use g(2) in simp)
    then have "56 \<notin> set (sp ! i)" by (rule nth_no_eight [OF g(3)])
    from location_keeps [OF g(1) this assms(2)] True i fam show ?thesis by simp
  next
    case False
    with Cons fam show ?thesis by simp
  qed
qed

lemma enhanceLocation_keeps:
  assumes "\<not> tok8k s"
  shows "\<not> tok8k (fst (enhanceLocation s w))"
  unfolding enhanceLocation_def
  by (rule enhance_locations_keeps [OF _ assms])
    (simp add: locationEnhancements_def place_def str_simps cu_simps is_word_def)

subsection \<open>The vocabulary\<close>

lemma eight_k_append: "eight_k (A @ 56 # k # B)" if "k = 107 \<or> k = 75"
  using that by (induction A rule: eight_k.induct) auto

lemma tok8k_eight_k: "tok8k s \<Longrightarrow> eight_k s"
  unfolding tok8k_def using eight_k_append by blast

lemma vocabulary_eight_k:
  "list_all (\<lambda>t. list_all (\<lambda>x. \<not> eight_k x) (vocab0 t)) tables"
  by (simp add: tables_def vocab0.simps str_simps cu_simps)

lemma vocabulary_no_token:
  "list_all (\<lambda>t. list_all (\<lambda>x. \<not> has_8k x) (vocab0 t)) tables"
proof -
  have "\<not> has_8k x" if "\<not> eight_k x" for x
    using that tok8k_eight_k by (auto simp: has_8k_tok8k)
  with vocabulary_eight_k show ?thesis by (auto simp: list_all_iff)
qed

lemma table_no_token: "x \<in> set (vocab0 t) \<Longrightarrow> \<not> tok8k x"
proof -
  have "t \<in> set tables" by (cases t) (simp_all add: tables_def)
  moreover assume "x \<in> set (vocab0 t)"
  ultimately have "\<not> eight_k x" using vocabulary_eight_k by (simp add: list_all_iff)
  then show ?thesis using tok8k_eight_k by blast
qed

lemma join_token:
  assumes "tok8k (join (str '', '') xs)"
  shows "\<exists>x \<in> set xs. tok8k x"
  using assms
proof (induction "str '', ''" xs rule: join.induct)
  case (3 x y ys)
  let ?sep = "str '', ''" and ?rest = "join (str '', '') (y # ys)"
  have sep: "\<forall>c \<in> set ?sep. \<not> is_word c" by (simp add: str_simps cu_simps is_word_def)
  note c = nonword_clear [OF sep]
  have "?sep \<noteq> []" by (simp add: str_simps)
  then have "starts_clear (?sep @ ?rest)" using c(2)
    by (simp add: starts_clear_append)
  with 3(2) have "tok8k x \<or> tok8k (?sep @ ?rest)"
    using tok8k_appendD [of x "?sep @ ?rest"] by simp
  moreover have "tok8k ?rest" if "tok8k (?sep @ ?rest)"
    using that c(1,3) tok8k_appendD [of ?sep ?rest] by blast
  ultimately show ?case using 3(1) by auto
qed simp_all

subsection \<open>The transformed prompt\<close>

text \<open>
  Claim C9.  In a running program, for every prompt, in particular for one that contains
  \<open>8k\<close> as a standalone word, and for all options in which \<open>preserveOriginal\<close> is unset
  or otherwise falsy, \<open>transformPrompt\<close> returns a result whose \<open>transformed\<close> text does
  not contain the standalone token \<open>8k\<close> in either case; and no phrase of any vocabulary
  table contains that token.
\<close>

theorem transformPrompt_strips_8k:
  assumes "vocab_ok (vocab w)" and "\<not> truthy (preserveOriginal opts)"
  shows "(\<exists>r w'. transformPrompt p opts w = (Inr r, w') \<and> \<not> has_8k (transformed r))
    \<and> list_all (\<lambda>t. list_all (\<lambda>x. \<not> has_8k x) (vocab0 t)) tables"
proof -
  obtain a li1 subj w2 loc w3 tech0 w4 imps0 w5 cmp0 w6 hum0 w7 n li8 where
    a: "analyze p w = (Inr a, w\<lparr>lastIndex := li1\<rparr>)"
    and s: "enhanceSubject (if truthy (default_to (JBoolean False) (preserveOriginal opts)) then p
          else cleanPrompt p) (w\<lparr>lastIndex := li1\<rparr>) = (subj, w2)"
    and l: "enhanceLocation subj w2 = (loc, w3)"
    and t: "buildTechnicalModifiers (default_to (JString (str ''film'')) (style opts))
        (default_to (JString (str ''natural'')) (mood opts)) w3 = (tech0, w4)"
    and i: "buildImperfections (default_to (JString (str ''medium'')) (imperfectionLevel opts)) w4 = (imps0, w5)"
    and c: "getRandomModifiers (Arr COMPOSITION_natural) 1 w5 = (cmp0, w6)"
    and h: "(if hasHumanSubject p then getRandomModifiers (Arr HUMAN_DETAILS) 2 w6 else ([], w6)) = (hum0, w7)"
    and n: "analyze (join (str '', '') (loc # filter (\<lambda>x. x \<noteq> []) (tech0 @ imps0 @ cmp0 @ hum0))) w7
        = (Inr n, w7\<lparr>lastIndex := li8\<rparr>)"
    and r0: "transformPrompt p opts w =
        (Inr \<lparr>original = p,
              transformed = join (str '', '') (loc # filter (\<lambda>x. x \<noteq> []) (tech0 @ imps0 @ cmp0 @ hum0)),
              originalScore = score a,
              newScore = score n,
              improvement = score a - score n,
              issuesFixed = map name (issues a),
              modifiersAdded = filter (\<lambda>x. x \<noteq> []) (tech0 @ imps0 @ cmp0 @ hum0)\<rparr>,
         w7\<lparr>lastIndex := li8\<rparr>)"
    by (rule transformPrompt_steps [of p w opts])
  from transformPrompt_modifiers [OF assms(1), of p opts]
  obtain r w' tech imps cmp hum f g h' where
    r: "transformPrompt p opts w = (Inr r, w')"
    and m: "modifiersAdded r = filter (\<lambda>x. x \<noteq> []) (tech @ imps @ cmp @ hum)"
    and T: "set tech \<subseteq> technical_phrases"
    and F: "f \<in> set (vocab0 IMPERFECTIONS_film)" "g \<in> set (vocab0 IMPERFECTIONS_focus)"
      "h' \<in> set (vocab0 IMPERFECTIONS_surface)"
    and I: "imps = (if default_to (JString (str ''medium'')) (imperfectionLevel opts) = JString (str ''high'')
                 then [f, g, h']
                else if default_to (JString (str ''medium'')) (imperfectionLevel opts) = JString (str ''low'')
                 then [f]
                else [f, g])"
    and C: "set cmp \<subseteq> set (vocab0 COMPOSITION_natural)"
    and H: "set hum \<subseteq> set (vocab0 HUMAN_DETAILS)"
    by blast
  from r r0 have tr: "transformed r = join (str '', '') (loc # modifiersAdded r)" by auto
  have "\<not> tok8k (cleanPrompt p)" by (rule cleanPrompt_no_token)
  from enhanceSubject_keeps [OF this, of "w\<lparr>lastIndex := li1\<rparr>"] s assms(2)
  have "\<not> tok8k subj" by (simp add: truthy_default)
  from enhanceLocation_keeps [OF this, of w2] l have loc: "\<not> tok8k loc" by simp
  have smart: "\<not> tok8k (str ''smartphone photo'')"
    by (rule no_eight_token) (simp add: str_simps cu_simps)
  have tech: "\<not> tok8k x" if "x \<in> set tech" for x
    using that T smart table_no_token by (auto simp: technical_phrases_def)
  have imps: "\<not> tok8k x" if "x \<in> set imps" for x
    using that I F table_no_token by (auto split: if_splits)
  have cmp: "\<not> tok8k x" if "x \<in> set cmp" for x
    using that C table_no_token by blast
  have hum: "\<not> tok8k x" if "x \<in> set hum" for x
    using that H table_no_token by blast
  have "\<not> tok8k x" if "x \<in> set (loc # modifiersAdded r)" for x
    using that loc tech imps cmp hum unfolding m by auto
  with join_token [of "loc # modifiersAdded r"] have "\<not> tok8k (transformed r)"
    unfolding tr by blast
  then have "\<not> has_8k (transformed r)" by (simp add: has_8k_tok8k)
  with r vocabulary_no_token show ?thesis by blast
qed

theorem transformPrompt_strips_8k_witness:
  "has_8k (str ''a cat, 8k'')
   \<and> vocab_ok (vocab (fresh_world (\<lambda>_. 0)))
   \<and> \<not> truthy (preserveOriginal no_options)
   \<and> (\<exists>r w'. transformPrompt (str ''a cat, 8k'') no_options (fresh_world (\<lambda>_. 0)) = (Inr r, w')
        \<and> \<not> has_8k (transformed r))
   \<and> list_all (\<lambda>t. list_all (\<lambda>x. \<not> has_8k x) (vocab0 t)) tables"
proof -
  have "tok8k (str ''a cat, 8k'')"
    by (rule tok8kI [of _ "str ''a cat, ''" 107 "[]"])
      (simp_all add: str_simps cu_simps ends_clear_def is_word_def)
  then have p: "has_8k (str ''a cat, 8k'')" by (simp add: has_8k_tok8k)
  have v: "vocab_ok (vocab (fresh_world (\<lambda>_. 0)))"
    by (simp add: vocab_ok_def fresh_world_def)
  have o: "\<not> truthy (preserveOriginal no_options)"
    by (simp add: no_options_def)
  from transformPrompt_strips_8k [OF v o, of "str ''a cat, 8k''"] p v o
  show ?thesis by blast
qed

end
